theory Spec2Isabelle
  imports Main "HOL-Library.Multiset"
begin

section \<open>The pack datastore of fleet: tables, statements, transactions\<close>

text \<open>
  The MySQL datastore functions for packs (\<open>ApplyPackSpecs\<close>, \<open>applyPackSpec\<close>,
  \<open>GetPackSpecs\<close>, \<open>PackByName\<close>, \<open>Pack\<close>, \<open>ListPacks\<close>, \<open>ListLabelsForPack\<close>,
  \<open>ListPacksForHost\<close>, \<open>ListHostsInPack\<close>, \<open>ListExplicitHostsInPack\<close>) are embedded as
  functions on an explicit database state. A table is the list of its rows in insertion
  order; a row is a record of the columns the Go code reads or writes. Every SQL
  statement of the source is one definition. A \<open>SELECT\<close> over a join enumerates the
  tables in the order of its \<open>FROM\<close> clause (a nested loop, first table outermost) and
  a \<open>SELECT\<close> without \<open>ORDER BY\<close> returns rows in that enumeration order.

  Go errors are values of the type \<open>err\<close>; a function that returns \<open>(T, error)\<close>
  returns \<open>err + T\<close>. Failures of the store that do not depend on the data (a lost
  connection, a timeout) are given by a predicate on statements, so that every
  \<open>if err != nil\<close> branch of the source is a branch of the model.
\<close>

subsection \<open>Specs (package kolide)\<close>

text \<open>Modelled from the spec: the declarations of \<open>kolide.PackSpec\<close>,
  \<open>kolide.PackSpecQuery\<close>, \<open>kolide.PackSpecTargets\<close> and of the constants
  \<open>kolide.TargetLabel\<close> and \<open>kolide.TargetHost\<close> are not among the sources. The
  records have the fields that \<open>applyPackSpec\<close> and \<open>GetPackSpecs\<close> read and write,
  with the types the spec gives them (section 6: interval a non-negative integer,
  snapshot and removed booleans, shard a number or unset, the rest strings).\<close>

record PackSpecQuery =
  psq_QueryName :: string
  psq_Name :: string
  psq_Description :: string
  psq_Interval :: nat
  psq_Snapshot :: bool
  psq_Removed :: bool
  psq_Shard :: "nat option"
  psq_Platform :: string
  psq_Version :: string

record PackSpecTargets =
  Labels :: "string list"

record PackSpec =
  ps_ID :: nat
  ps_Name :: string
  ps_Description :: string
  ps_Platform :: string
  ps_Targets :: PackSpecTargets
  ps_Queries :: "PackSpecQuery list"

datatype TargetType = TargetLabel | TargetHost

subsection \<open>Tables\<close>

text \<open>Modelled from the spec: the schema is not among the sources. The rows have the
  columns named in the statements of the Go code; the keys are those of the spec
  (section 3: pack, query and label names are unique; section 6: the tables and their
  foreign keys) and those the statements rely on (\<open>ON DUPLICATE KEY\<close> on the pack
  name, \<open>isChildForeignKeyError\<close> on the query name of a scheduled query). A
  statement that the store rejects for any other reason is a failure of the store
  (the predicate on statements below).\<close>

record pack_row =
  p_id :: nat
  p_name :: string
  p_description :: string
  p_platform :: string
  p_disabled :: bool
  p_deleted :: bool

record query_row =
  q_name :: string
  q_query :: string

record label_row =
  l_id :: nat
  l_name :: string
  l_deleted :: bool

record host_row =
  h_id :: nat
  h_hostname :: string

record scheduled_query_row =
  sq_pack_id :: nat
  sq_query_name :: string
  sq_name :: string
  sq_description :: string
  sq_interval :: nat
  sq_snapshot :: bool
  sq_removed :: bool
  sq_shard :: "nat option"
  sq_platform :: string
  sq_version :: string

text \<open>\<open>target_id\<close> is filled from a scalar subquery, whose value is \<open>NULL\<close> when it
  selects no row: the column is a \<open>nat option\<close>.\<close>

record pack_target_row =
  pt_pack_id :: nat
  pt_type :: TargetType
  pt_target_id :: "nat option"

record label_query_execution_row =
  lqe_host_id :: nat
  lqe_label_id :: nat
  lqe_matches :: bool

record datastore =
  packs :: "pack_row list"
  queries :: "query_row list"
  labels :: "label_row list"
  hosts :: "host_row list"
  scheduled_queries :: "scheduled_query_row list"
  pack_targets :: "pack_target_row list"
  label_query_executions :: "label_query_execution_row list"

subsection \<open>Errors\<close>

text \<open>What the driver reports for a statement: no row for a single-row read
  (\<open>sql.ErrNoRows\<close>), a child row whose foreign key has no parent (MySQL 1452), a
  scalar subquery with more than one row (MySQL 1242), or a failure of the store
  itself. The texts of the driver's errors and of \<open>notFound\<close> are theirs, not this
  package's; \<open>sql_error_text\<close> and the last equation of \<open>error_message\<close> stand
  for them and no statement below depends on their wording.\<close>

datatype sql_error = ErrNoRows | ErrNoReferencedRow | ErrSubqueryRows | ErrDriver

text \<open>\<open>errors.Wrap(e, m)\<close> is \<open>Wrap m e\<close>, \<open>errors.Errorf\<close> and \<open>errors.New\<close> are
  \<open>Errorf\<close>, \<open>notFound("Pack").WithID(pid)\<close> is \<open>NotFound ''Pack'' pid\<close>.\<close>

datatype err =
    SqlError sql_error
  | Wrap string err
  | Errorf string
  | NotFound string nat

definition sql_error_text :: "sql_error \<Rightarrow> string" where
  "sql_error_text e = (case e of
       ErrNoRows \<Rightarrow> ''sql: no rows in result set''
     | ErrNoReferencedRow \<Rightarrow> ''Error 1452: Cannot add or update a child row: a foreign key constraint fails''
     | ErrSubqueryRows \<Rightarrow> ''Error 1242: Subquery returns more than 1 row''
     | ErrDriver \<Rightarrow> ''driver: bad connection'')"

fun error_message :: "err \<Rightarrow> string" where
  "error_message (SqlError e) = sql_error_text e"
| "error_message (Wrap m e) = m @ '': '' @ error_message e"
| "error_message (Errorf m) = m"
| "error_message (NotFound what i) = what @ '' was not found in the datastore''"

text \<open>\<open>'%s'\<close> in a format string: the argument between two single quotes.\<close>

definition quoted :: "string \<Rightarrow> string" where
  "quoted s = CHR 0x27 # s @ [CHR 0x27]"

text \<open>Modelled from the spec: the helper \<open>isChildForeignKeyError\<close>, called by
  \<open>applyPackSpec\<close>, is not among the sources. By section 4.1, step 3, the
  unknown-query error is raised when the insert fails for a reference to a query name
  that does not exist: the helper holds of the driver's foreign-key error and of no
  other.\<close>

definition isChildForeignKeyError :: "sql_error \<Rightarrow> bool" where
  "isChildForeignKeyError e = (e = ErrNoReferencedRow)"

subsection \<open>Statements and store failures\<close>

datatype stmt =
    BeginTx
  | CommitTx
  | UpsertPack string
  | SelectPackID string
  | DeleteScheduledQueries nat
  | InsertScheduledQuery nat string string
  | DeleteTargets nat
  | InsertTarget nat string
  | SelectPacks
  | SelectTargets nat
  | SelectQueries nat
  | SelectPackByName string
  | SelectPack nat
  | SelectListPacks
  | SelectLabelsForPack nat
  | SelectPacksForHost nat
  | SelectHostsInPack nat
  | SelectExplicitHostsInPack nat

type_synonym faults = "stmt \<Rightarrow> bool"

definition no_faults :: faults where
  "no_faults = (\<lambda>_. False)"

subsection \<open>The statements of applyPackSpec\<close>

text \<open>Modelled from the spec: the pack id is a surrogate key that the store assigns
  (section 4.1, step 2). \<open>AUTO_INCREMENT\<close> gives a new pack row an id above every id in
  the table.\<close>

definition next_pack_id :: "pack_row list \<Rightarrow> nat" where
  "next_pack_id ps = Suc (foldr max (map p_id ps) 0)"

text \<open>\<open>INSERT INTO packs (name, description, platform) VALUES (?, ?, ?) ON DUPLICATE KEY
  UPDATE name = VALUES(name), description = VALUES(description), platform =
  VALUES(platform), deleted = false\<close>. The unique key that can collide is the name;
  \<open>disabled\<close> and \<open>deleted\<close> of a new row take their default, false.\<close>

definition upsert_pack_rows :: "pack_row list \<Rightarrow> string \<Rightarrow> string \<Rightarrow> string \<Rightarrow> pack_row list" where
  "upsert_pack_rows ps name description platform =
     (if name \<in> set (map p_name ps)
      then map (\<lambda>p. if p_name p = name
                     then p\<lparr>p_name := name, p_description := description,
                            p_platform := platform, p_deleted := False\<rparr>
                     else p) ps
      else ps @ [\<lparr>p_id = next_pack_id ps, p_name = name, p_description = description,
                  p_platform = platform, p_disabled = False, p_deleted = False\<rparr>])"

definition exec_upsert_pack :: "faults \<Rightarrow> datastore \<Rightarrow> string \<Rightarrow> string \<Rightarrow> string \<Rightarrow> sql_error + datastore" where
  "exec_upsert_pack F db name description platform =
     (if F (UpsertPack name) then Inl ErrDriver
      else Inr (db\<lparr>packs := upsert_pack_rows (packs db) name description platform\<rparr>))"

text \<open>\<open>tx.Get(&packID, "SELECT id FROM packs WHERE name = ?", spec.Name)\<close>: the first
  row, or \<open>sql.ErrNoRows\<close>.\<close>

definition get_pack_id :: "faults \<Rightarrow> datastore \<Rightarrow> string \<Rightarrow> sql_error + nat" where
  "get_pack_id F db name =
     (if F (SelectPackID name) then Inl ErrDriver
      else case find (\<lambda>p. p_name p = name) (packs db) of
             None \<Rightarrow> Inl ErrNoRows
           | Some p \<Rightarrow> Inr (p_id p))"

text \<open>\<open>DELETE FROM scheduled_queries WHERE pack_id = ?\<close>\<close>

definition exec_delete_scheduled_queries :: "faults \<Rightarrow> datastore \<Rightarrow> nat \<Rightarrow> sql_error + datastore" where
  "exec_delete_scheduled_queries F db packID =
     (if F (DeleteScheduledQueries packID) then Inl ErrDriver
      else Inr (db\<lparr>scheduled_queries :=
                    filter (\<lambda>r. sq_pack_id r \<noteq> packID) (scheduled_queries db)\<rparr>))"

definition scheduled_query_of :: "nat \<Rightarrow> PackSpecQuery \<Rightarrow> scheduled_query_row" where
  "scheduled_query_of packID q =
     \<lparr>sq_pack_id = packID, sq_query_name = psq_QueryName q, sq_name = psq_Name q,
      sq_description = psq_Description q, sq_interval = psq_Interval q,
      sq_snapshot = psq_Snapshot q, sq_removed = psq_Removed q, sq_shard = psq_Shard q,
      sq_platform = psq_Platform q, sq_version = psq_Version q\<rparr>"

text \<open>\<open>INSERT INTO scheduled_queries (pack_id, query_name, name, ...) VALUES (...)\<close>.
  \<open>query_name\<close> is a foreign key to the name of a query: the insert of a row whose
  \<open>query_name\<close> names no query fails with the foreign-key error.\<close>

definition exec_insert_scheduled_query :: "faults \<Rightarrow> datastore \<Rightarrow> nat \<Rightarrow> PackSpecQuery \<Rightarrow> sql_error + datastore" where
  "exec_insert_scheduled_query F db packID q =
     (if F (InsertScheduledQuery packID (psq_QueryName q) (psq_Name q)) then Inl ErrDriver
      else if psq_QueryName q \<notin> set (map q_name (queries db)) then Inl ErrNoReferencedRow
      else Inr (db\<lparr>scheduled_queries := scheduled_queries db @ [scheduled_query_of packID q]\<rparr>))"

text \<open>The loop \<open>for _, q := range spec.Queries\<close> with its \<open>switch\<close> on the error.\<close>

fun insert_scheduled_queries :: "faults \<Rightarrow> datastore \<Rightarrow> nat \<Rightarrow> PackSpecQuery list \<Rightarrow> err + datastore" where
  "insert_scheduled_queries F db packID [] = Inr db"
| "insert_scheduled_queries F db packID (q # qs) =
     (case exec_insert_scheduled_query F db packID q of
        Inl e \<Rightarrow>
          (if isChildForeignKeyError e
           then Inl (Errorf (''cannot schedule unknown query '' @ quoted (psq_QueryName q)))
           else Inl (Wrap (''adding query '' @ psq_Name q @ '' referencing '' @ psq_QueryName q)
                       (SqlError e)))
      | Inr db' \<Rightarrow> insert_scheduled_queries F db' packID qs)"

text \<open>\<open>DELETE FROM pack_targets WHERE pack_id = ?\<close>\<close>

definition exec_delete_targets :: "faults \<Rightarrow> datastore \<Rightarrow> nat \<Rightarrow> sql_error + datastore" where
  "exec_delete_targets F db packID =
     (if F (DeleteTargets packID) then Inl ErrDriver
      else Inr (db\<lparr>pack_targets := filter (\<lambda>r. pt_pack_id r \<noteq> packID) (pack_targets db)\<rparr>))"

text \<open>The scalar subquery \<open>(SELECT id FROM labels WHERE name = ?)\<close>: \<open>NULL\<close> for no
  row (section 4.1, step 4: a label name that does not exist "yields a null/no-row
  outcome"), the id for one row, an error for more.\<close>

definition label_id_subquery :: "label_row list \<Rightarrow> string \<Rightarrow> sql_error + nat option" where
  "label_id_subquery ls name =
     (case filter (\<lambda>l. l_name l = name) ls of
        [] \<Rightarrow> Inr None
      | [l] \<Rightarrow> Inr (Some (l_id l))
      | _ \<Rightarrow> Inl ErrSubqueryRows)"

text \<open>\<open>INSERT INTO pack_targets (pack_id, type, target_id) VALUES (?, ?, (SELECT id
  FROM labels WHERE name = ?))\<close>\<close>

definition exec_insert_target :: "faults \<Rightarrow> datastore \<Rightarrow> nat \<Rightarrow> TargetType \<Rightarrow> string \<Rightarrow> sql_error + datastore" where
  "exec_insert_target F db packID ty l =
     (if F (InsertTarget packID l) then Inl ErrDriver
      else case label_id_subquery (labels db) l of
             Inl e \<Rightarrow> Inl e
           | Inr tid \<Rightarrow>
               Inr (db\<lparr>pack_targets := pack_targets db @
                          [\<lparr>pt_pack_id = packID, pt_type = ty, pt_target_id = tid\<rparr>]\<rparr>))"

text \<open>The loop \<open>for _, l := range spec.Targets.Labels\<close>.\<close>

fun insert_targets :: "faults \<Rightarrow> datastore \<Rightarrow> nat \<Rightarrow> string list \<Rightarrow> err + datastore" where
  "insert_targets F db packID [] = Inr db"
| "insert_targets F db packID (l # ls) =
     (case exec_insert_target F db packID TargetLabel l of
        Inl e \<Rightarrow> Inl (Wrap ''adding label to pack'' (SqlError e))
      | Inr db' \<Rightarrow> insert_targets F db' packID ls)"

subsection \<open>applyPackSpec and ApplyPackSpecs\<close>

definition applyPackSpec :: "faults \<Rightarrow> datastore \<Rightarrow> PackSpec \<Rightarrow> err + datastore" where
  "applyPackSpec F tx spec =
     (case exec_upsert_pack F tx (ps_Name spec) (ps_Description spec) (ps_Platform spec) of
        Inl e \<Rightarrow> Inl (Wrap ''insert/update pack'' (SqlError e))
      | Inr tx1 \<Rightarrow>
     (case get_pack_id F tx1 (ps_Name spec) of
        Inl e \<Rightarrow> Inl (Wrap ''getting pack ID'' (SqlError e))
      | Inr packID \<Rightarrow>
     (case exec_delete_scheduled_queries F tx1 packID of
        Inl e \<Rightarrow> Inl (Wrap ''delete existing scheduled queries'' (SqlError e))
      | Inr tx2 \<Rightarrow>
     (case insert_scheduled_queries F tx2 packID (ps_Queries spec) of
        Inl e \<Rightarrow> Inl e
      | Inr tx3 \<Rightarrow>
     (case exec_delete_targets F tx3 packID of
        Inl e \<Rightarrow> Inl (Wrap ''delete existing targets'' (SqlError e))
      | Inr tx4 \<Rightarrow> insert_targets F tx4 packID (Labels (ps_Targets spec)))))))"

text \<open>The loop \<open>for _, spec := range specs\<close> of \<open>ApplyPackSpecs\<close>, on the state of
  the open transaction.\<close>

fun apply_specs :: "faults \<Rightarrow> datastore \<Rightarrow> PackSpec list \<Rightarrow> err + datastore" where
  "apply_specs F tx [] = Inr tx"
| "apply_specs F tx (spec # specs) =
     (case applyPackSpec F tx spec of
        Inl e \<Rightarrow> Inl (Wrap (''applying pack '' @ quoted (ps_Name spec)) e)
      | Inr tx' \<Rightarrow> apply_specs F tx' specs)"

text \<open>\<open>ApplyPackSpecs\<close> returns the error (\<open>None\<close> for \<open>nil\<close>) and leaves the store in
  a new state. The transaction works on its own copy; the deferred function rolls back
  whenever the named result \<open>err\<close> is not \<open>nil\<close>, which leaves the store as it was at
  \<open>Beginx\<close>; \<open>Commit\<close> makes the transaction's state the store's. A rollback itself
  is taken to succeed (or to report \<open>sql.ErrTxDone\<close>), so the \<open>panic\<close> is not
  reached.\<close>

definition ApplyPackSpecs :: "faults \<Rightarrow> datastore \<Rightarrow> PackSpec list \<Rightarrow> err option \<times> datastore" where
  "ApplyPackSpecs F db specs =
     (if F BeginTx then (Some (Wrap ''begin ApplyPackSpec transaction'' (SqlError ErrDriver)), db)
      else case apply_specs F db specs of
             Inl e \<Rightarrow> (Some e, db)
           | Inr tx \<Rightarrow>
               (if F CommitTx then (Some (Wrap ''commit transaction'' (SqlError ErrDriver)), db)
                else (None, tx)))"

subsection \<open>GetPackSpecs\<close>

text \<open>\<open>SELECT id, name, description, platform FROM packs\<close>, scanned into specs.\<close>

definition basic_spec :: "pack_row \<Rightarrow> PackSpec" where
  "basic_spec p =
     \<lparr>ps_ID = p_id p, ps_Name = p_name p, ps_Description = p_description p,
      ps_Platform = p_platform p, ps_Targets = \<lparr>Labels = []\<rparr>, ps_Queries = []\<rparr>"

text \<open>\<open>SELECT l.name FROM labels l JOIN pack_targets pt WHERE pack_id = ? AND pt.type = ?
  AND pt.target_id = l.id\<close>\<close>

definition select_target_labels :: "datastore \<Rightarrow> nat \<Rightarrow> TargetType \<Rightarrow> string list" where
  "select_target_labels db packID ty =
     [l_name l. l \<leftarrow> labels db, pt \<leftarrow> pack_targets db,
        pt_pack_id pt = packID \<and> pt_type pt = ty \<and> pt_target_id pt = Some (l_id l)]"

definition spec_query_of :: "scheduled_query_row \<Rightarrow> PackSpecQuery" where
  "spec_query_of r =
     \<lparr>psq_QueryName = sq_query_name r, psq_Name = sq_name r,
      psq_Description = sq_description r, psq_Interval = sq_interval r,
      psq_Snapshot = sq_snapshot r, psq_Removed = sq_removed r, psq_Shard = sq_shard r,
      psq_Platform = sq_platform r, psq_Version = sq_version r\<rparr>"

text \<open>\<open>SELECT query_name, name, description, interval, snapshot, removed, shard,
  platform, version FROM scheduled_queries WHERE pack_id = ?\<close>\<close>

definition select_pack_queries :: "datastore \<Rightarrow> nat \<Rightarrow> PackSpecQuery list" where
  "select_pack_queries db packID =
     map spec_query_of (filter (\<lambda>r. sq_pack_id r = packID) (scheduled_queries db))"

text \<open>The two loops over the specs, each returning at the first failing read.\<close>

fun load_targets :: "faults \<Rightarrow> datastore \<Rightarrow> PackSpec list \<Rightarrow> err + PackSpec list" where
  "load_targets F db [] = Inr []"
| "load_targets F db (spec # specs) =
     (if F (SelectTargets (ps_ID spec)) then Inl (Wrap ''get pack targets'' (SqlError ErrDriver))
      else case load_targets F db specs of
             Inl e \<Rightarrow> Inl e
           | Inr specs' \<Rightarrow>
               Inr (spec\<lparr>ps_Targets := \<lparr>Labels = select_target_labels db (ps_ID spec) TargetLabel\<rparr>\<rparr>
                    # specs'))"

fun load_queries :: "faults \<Rightarrow> datastore \<Rightarrow> PackSpec list \<Rightarrow> err + PackSpec list" where
  "load_queries F db [] = Inr []"
| "load_queries F db (spec # specs) =
     (if F (SelectQueries (ps_ID spec)) then Inl (Wrap ''get pack queries'' (SqlError ErrDriver))
      else case load_queries F db specs of
             Inl e \<Rightarrow> Inl e
           | Inr specs' \<Rightarrow>
               Inr (spec\<lparr>ps_Queries := select_pack_queries db (ps_ID spec)\<rparr> # specs'))"

definition GetPackSpecs :: "faults \<Rightarrow> datastore \<Rightarrow> err + PackSpec list" where
  "GetPackSpecs F db =
     (if F BeginTx then Inl (Wrap ''begin GetPackSpecs transaction'' (SqlError ErrDriver))
      else if F SelectPacks then Inl (Wrap ''get packs'' (SqlError ErrDriver))
      else case load_targets F db (map basic_spec (packs db)) of
             Inl e \<Rightarrow> Inl e
           | Inr specs1 \<Rightarrow>
        (case load_queries F db specs1 of
             Inl e \<Rightarrow> Inl e
           | Inr specs2 \<Rightarrow>
               (if F CommitTx then Inl (Wrap ''commit transaction'' (SqlError ErrDriver))
                else Inr specs2)))"

subsection \<open>Lookups and listings\<close>

text \<open>The helper \<open>appendListOptionsToSQL\<close> is not among the sources. By section 4.2
  the list options are an offset, limit and sort modifier layered on the base query,
  so the functions below take their effect on the rows of the base query as the
  parameter \<open>opt\<close>. \<open>all_rows\<close> is the base query alone.\<close>

definition all_rows :: "'a list \<Rightarrow> 'a list" where
  "all_rows rows = rows"

text \<open>\<open>SELECT * FROM packs WHERE name = ? AND NOT deleted\<close>; the Go function returns
  \<open>(pack, true, nil)\<close>, \<open>(nil, false, nil)\<close> for no row, or \<open>(nil, false, err)\<close>.\<close>

definition PackByName :: "faults \<Rightarrow> datastore \<Rightarrow> string \<Rightarrow> err + pack_row option" where
  "PackByName F db name =
     (if F (SelectPackByName name) then Inl (Wrap ''fetching packs by name'' (SqlError ErrDriver))
      else Inr (find (\<lambda>p. p_name p = name \<and> \<not> p_deleted p) (packs db)))"

text \<open>\<open>SELECT * FROM packs WHERE id = ? AND NOT deleted\<close>\<close>

definition Pack :: "faults \<Rightarrow> datastore \<Rightarrow> nat \<Rightarrow> err + pack_row" where
  "Pack F db pid =
     (if F (SelectPack pid) then Inl (Wrap ''getting pack'' (SqlError ErrDriver))
      else case find (\<lambda>p. p_id p = pid \<and> \<not> p_deleted p) (packs db) of
             None \<Rightarrow> Inl (NotFound ''Pack'' pid)
           | Some p \<Rightarrow> Inr p)"

text \<open>\<open>SELECT * FROM packs WHERE NOT deleted\<close>\<close>

definition ListPacks :: "faults \<Rightarrow> datastore \<Rightarrow> (pack_row list \<Rightarrow> pack_row list) \<Rightarrow> err + pack_row list" where
  "ListPacks F db opt =
     (if F SelectListPacks then Inl (Wrap ''listing packs'' (SqlError ErrDriver))
      else Inr (opt (filter (\<lambda>p. \<not> p_deleted p) (packs db))))"

text \<open>\<open>SELECT l.id, ..., l.name FROM labels l JOIN pack_targets pt ON pt.target_id = l.id
  WHERE pt.type = ? AND pt.pack_id = ? AND NOT l.deleted\<close>\<close>

definition ListLabelsForPack :: "faults \<Rightarrow> datastore \<Rightarrow> nat \<Rightarrow> err + label_row list" where
  "ListLabelsForPack F db pid =
     (if F (SelectLabelsForPack pid) then Inl (Wrap ''listing labels for pack'' (SqlError ErrDriver))
      else Inr [l. l \<leftarrow> labels db, pt \<leftarrow> pack_targets db,
                  pt_target_id pt = Some (l_id l),
                  pt_type pt = TargetLabel \<and> pt_pack_id pt = pid \<and> \<not> l_deleted l])"

text \<open>\<open>SELECT DISTINCT p.* FROM packs p JOIN pack_targets pt JOIN label_query_executions
  lqe ON (p.id = pt.pack_id AND pt.target_id = lqe.label_id AND pt.type = ? AND
  lqe.matches) WHERE lqe.host_id = ? AND NOT p.disabled\<close>\<close>

definition ListPacksForHost :: "faults \<Rightarrow> datastore \<Rightarrow> nat \<Rightarrow> err + pack_row list" where
  "ListPacksForHost F db hid =
     (if F (SelectPacksForHost hid) then Inl (Wrap ''listing hosts in pack'' (SqlError ErrDriver))
      else Inr (remdups
             [p. p \<leftarrow> packs db, pt \<leftarrow> pack_targets db, lqe \<leftarrow> label_query_executions db,
                p_id p = pt_pack_id pt \<and> pt_target_id pt = Some (lqe_label_id lqe)
                  \<and> pt_type pt = TargetLabel \<and> lqe_matches lqe,
                lqe_host_id lqe = hid \<and> \<not> p_disabled p]))"

text \<open>\<open>SELECT DISTINCT h.id FROM hosts h JOIN pack_targets pt JOIN label_query_executions
  lqe ON (pt.target_id = lqe.label_id AND lqe.host_id = h.id AND lqe.matches AND pt.type
  = ?) OR (pt.target_id = h.id AND pt.type = ?) WHERE pt.pack_id = ?\<close>, with
  \<open>TargetLabel\<close> and \<open>TargetHost\<close> for the two types.\<close>

definition ListHostsInPack :: "faults \<Rightarrow> datastore \<Rightarrow> nat \<Rightarrow> (nat list \<Rightarrow> nat list) \<Rightarrow> err + nat list" where
  "ListHostsInPack F db pid opt =
     (if F (SelectHostsInPack pid) then Inl (Wrap ''listing hosts in pack'' (SqlError ErrDriver))
      else Inr (opt (remdups
             [h_id h. h \<leftarrow> hosts db, pt \<leftarrow> pack_targets db, lqe \<leftarrow> label_query_executions db,
                (pt_target_id pt = Some (lqe_label_id lqe) \<and> lqe_host_id lqe = h_id h
                   \<and> lqe_matches lqe \<and> pt_type pt = TargetLabel)
                \<or> (pt_target_id pt = Some (h_id h) \<and> pt_type pt = TargetHost),
                pt_pack_id pt = pid])))"

text \<open>\<open>SELECT DISTINCT h.id FROM hosts h JOIN pack_targets pt ON (pt.target_id = h.id AND
  pt.type = ?) WHERE pt.pack_id = ?\<close>, with \<open>TargetHost\<close> for the type.\<close>

definition ListExplicitHostsInPack :: "faults \<Rightarrow> datastore \<Rightarrow> nat \<Rightarrow> (nat list \<Rightarrow> nat list) \<Rightarrow> err + nat list" where
  "ListExplicitHostsInPack F db pid opt =
     (if F (SelectExplicitHostsInPack pid)
      then Inl (Wrap ''listing explicit hosts in pack'' (SqlError ErrDriver))
      else Inr (opt (remdups
             [h_id h. h \<leftarrow> hosts db, pt \<leftarrow> pack_targets db,
                pt_target_id pt = Some (h_id h) \<and> pt_type pt = TargetHost,
                pt_pack_id pt = pid])))"

section \<open>Notions used in the statements\<close>

text \<open>The unique keys of the tables: the primary key \<open>id\<close> and the unique key
  \<open>name\<close> of packs and of labels. The Go code relies on them (\<open>ON DUPLICATE KEY\<close>,
  the scalar subquery on the label name) and they are part of the schema, not of the
  state type, so the statements below assume them where they matter.\<close>

definition pack_keys :: "datastore \<Rightarrow> bool" where
  "pack_keys db \<longleftrightarrow> distinct (map p_id (packs db)) \<and> distinct (map p_name (packs db))"

definition label_keys :: "datastore \<Rightarrow> bool" where
  "label_keys db \<longleftrightarrow> distinct (map l_id (labels db)) \<and> distinct (map l_name (labels db))"

text \<open>The target row that the insert of \<open>applyPackSpec\<close> writes for the label name
  \<open>l\<close>, when it succeeds.\<close>

definition target_row_of :: "label_row list \<Rightarrow> nat \<Rightarrow> string \<Rightarrow> pack_target_row" where
  "target_row_of ls packID l =
     \<lparr>pt_pack_id = packID, pt_type = TargetLabel,
      pt_target_id = (case label_id_subquery ls l of Inr tid \<Rightarrow> tid | Inl _ \<Rightarrow> None)\<rparr>"

text \<open>The id that \<open>SELECT id FROM packs WHERE name = ?\<close> reads (0 when there is no
  row, which does not happen after the upsert).\<close>

definition pack_id_of :: "pack_row list \<Rightarrow> string \<Rightarrow> nat" where
  "pack_id_of ps name = (case find (\<lambda>p. p_name p = name) ps of Some p \<Rightarrow> p_id p | None \<Rightarrow> 0)"

text \<open>The state that \<open>applyPackSpec\<close> leaves when no statement fails (lemma
  \<open>applyPackSpec_Inr\<close>).\<close>

definition applied :: "datastore \<Rightarrow> PackSpec \<Rightarrow> datastore" where
  "applied db s =
     (let ps = upsert_pack_rows (packs db) (ps_Name s) (ps_Description s) (ps_Platform s);
          packID = pack_id_of ps (ps_Name s)
      in db\<lparr>packs := ps,
            scheduled_queries := filter (\<lambda>r. sq_pack_id r \<noteq> packID) (scheduled_queries db)
                                 @ map (scheduled_query_of packID) (ps_Queries s),
            pack_targets := filter (\<lambda>r. pt_pack_id r \<noteq> packID) (pack_targets db)
                            @ map (target_row_of (labels db) packID) (Labels (ps_Targets s))\<rparr>)"

text \<open>A spec whose statements cannot fail on the data: every scheduled query names a
  query of the store, and no target label name is the name of two labels.\<close>

definition spec_ok :: "datastore \<Rightarrow> PackSpec \<Rightarrow> bool" where
  "spec_ok db s \<longleftrightarrow>
     (\<forall>q \<in> set (ps_Queries s). psq_QueryName q \<in> set (map q_name (queries db))) \<and>
     (\<forall>l \<in> set (Labels (ps_Targets s)). length (filter (\<lambda>r. l_name r = l) (labels db)) \<le> 1)"

text \<open>What \<open>GetPackSpecs\<close> returns for one pack row.\<close>

definition read_spec :: "datastore \<Rightarrow> pack_row \<Rightarrow> PackSpec" where
  "read_spec db p =
     \<lparr>ps_ID = p_id p, ps_Name = p_name p, ps_Description = p_description p,
      ps_Platform = p_platform p,
      ps_Targets = \<lparr>Labels = select_target_labels db (p_id p) TargetLabel\<rparr>,
      ps_Queries = select_pack_queries db (p_id p)\<rparr>"

text \<open>The store holds the spec \<open>s\<close>: a live pack row has its name, description and
  platform, and the scheduled queries and targets of that pack are exactly the rows
  written for \<open>s\<close>, in the order of \<open>s\<close>.\<close>

definition holds_spec :: "datastore \<Rightarrow> PackSpec \<Rightarrow> bool" where
  "holds_spec db s \<longleftrightarrow>
     (\<exists>p \<in> set (packs db).
        p_name p = ps_Name s \<and> p_description p = ps_Description s \<and>
        p_platform p = ps_Platform s \<and> \<not> p_deleted p \<and>
        filter (\<lambda>r. sq_pack_id r = p_id p) (scheduled_queries db)
          = map (scheduled_query_of (p_id p)) (ps_Queries s) \<and>
        filter (\<lambda>r. pt_pack_id r = p_id p) (pack_targets db)
          = map (target_row_of (labels db) (p_id p)) (Labels (ps_Targets s)))"

text \<open>Two specs that agree in everything the reconciler writes, with the target labels
  compared as multisets.\<close>

definition same_spec :: "PackSpec \<Rightarrow> PackSpec \<Rightarrow> bool" where
  "same_spec r s \<longleftrightarrow>
     ps_Name r = ps_Name s \<and> ps_Description r = ps_Description s \<and>
     ps_Platform r = ps_Platform s \<and> ps_Queries r = ps_Queries s \<and>
     mset (Labels (ps_Targets r)) = mset (Labels (ps_Targets s))"

text \<open>Devices of the proof that a second application changes nothing. A child table
  after a batch is the table \<open>refill\<close>ed once per spec: the rows of the pack are removed
  and the new rows appended. \<open>steps_of\<close> lists, for a batch, the pack id and the new rows
  of each spec; \<open>upsert_spec\<close> and \<open>upd\<close> are the upsert of one spec on the packs
  table and on one row.\<close>

fun refill :: "('r \<Rightarrow> nat) \<Rightarrow> 'r list \<Rightarrow> (nat \<times> 'r list) list \<Rightarrow> 'r list" where
  "refill key xs [] = xs"
| "refill key xs ((pid, new) # steps) = refill key (filter (\<lambda>r. key r \<noteq> pid) xs @ new) steps"

fun refill_tail :: "('r \<Rightarrow> nat) \<Rightarrow> (nat \<times> 'r list) list \<Rightarrow> 'r list" where
  "refill_tail key [] = []"
| "refill_tail key ((pid, new) # steps) =
     filter (\<lambda>r. key r \<notin> fst ` set steps) new @ refill_tail key steps"

definition upsert_spec :: "pack_row list \<Rightarrow> PackSpec \<Rightarrow> pack_row list" where
  "upsert_spec ps s = upsert_pack_rows ps (ps_Name s) (ps_Description s) (ps_Platform s)"

fun steps_of :: "(nat \<Rightarrow> PackSpec \<Rightarrow> 'r list) \<Rightarrow> pack_row list \<Rightarrow> PackSpec list \<Rightarrow> (nat \<times> 'r list) list" where
  "steps_of mk ps [] = []"
| "steps_of mk ps (s # specs) =
     (pack_id_of (upsert_spec ps s) (ps_Name s), mk (pack_id_of (upsert_spec ps s) (ps_Name s)) s)
     # steps_of mk (upsert_spec ps s) specs"

definition upd :: "PackSpec \<Rightarrow> pack_row \<Rightarrow> pack_row" where
  "upd s p = (if p_name p = ps_Name s
              then p\<lparr>p_name := ps_Name s, p_description := ps_Description s,
                     p_platform := ps_Platform s, p_deleted := False\<rparr>
              else p)"

section \<open>Example stores and specs\<close>

definition q_uptime :: PackSpecQuery where
  "q_uptime = \<lparr>psq_QueryName = ''uptime'', psq_Name = ''uptime_hourly'', psq_Description = ''up'',
     psq_Interval = 3600, psq_Snapshot = False, psq_Removed = True, psq_Shard = None,
     psq_Platform = '''', psq_Version = ''''\<rparr>"

definition q_info :: PackSpecQuery where
  "q_info = \<lparr>psq_QueryName = ''info'', psq_Name = ''info_daily'', psq_Description = '''',
     psq_Interval = 86400, psq_Snapshot = True, psq_Removed = False, psq_Shard = Some 50,
     psq_Platform = ''linux'', psq_Version = ''2.9.0''\<rparr>"

definition q_unknown :: PackSpecQuery where
  "q_unknown = \<lparr>psq_QueryName = ''nope'', psq_Name = ''n'', psq_Description = '''',
     psq_Interval = 60, psq_Snapshot = False, psq_Removed = True, psq_Shard = None,
     psq_Platform = '''', psq_Version = ''''\<rparr>"

definition fresh_store :: datastore where
  "fresh_store = \<lparr>packs = [],
     queries = [\<lparr>q_name = ''uptime'', q_query = ''select * from uptime''\<rparr>,
                \<lparr>q_name = ''info'', q_query = ''select * from osquery_info''\<rparr>],
     labels = [\<lparr>l_id = 1, l_name = ''linux'', l_deleted = False\<rparr>,
               \<lparr>l_id = 2, l_name = ''mac'', l_deleted = False\<rparr>],
     hosts = [\<lparr>h_id = 1, h_hostname = ''h1''\<rparr>, \<lparr>h_id = 2, h_hostname = ''h2''\<rparr>,
              \<lparr>h_id = 3, h_hostname = ''h3''\<rparr>],
     scheduled_queries = [], pack_targets = [], label_query_executions = []\<rparr>"

definition spec_one :: PackSpec where
  "spec_one = \<lparr>ps_ID = 0, ps_Name = ''one'', ps_Description = ''first'', ps_Platform = ''linux'',
     ps_Targets = \<lparr>Labels = [''mac'', ''linux'']\<rparr>, ps_Queries = [q_uptime, q_info]\<rparr>"

definition spec_two :: PackSpec where
  "spec_two = \<lparr>ps_ID = 0, ps_Name = ''two'', ps_Description = ''second'', ps_Platform = '''',
     ps_Targets = \<lparr>Labels = [''linux'']\<rparr>, ps_Queries = [q_uptime, q_unknown]\<rparr>"

definition spec_three :: PackSpec where
  "spec_three = \<lparr>ps_ID = 0, ps_Name = ''three'', ps_Description = ''third'', ps_Platform = '''',
     ps_Targets = \<lparr>Labels = []\<rparr>, ps_Queries = [q_info]\<rparr>"

definition spec_orphan :: PackSpec where
  "spec_orphan = \<lparr>ps_ID = 0, ps_Name = ''orphan'', ps_Description = '''', ps_Platform = '''',
     ps_Targets = \<lparr>Labels = [''ghost'']\<rparr>, ps_Queries = []\<rparr>"


text \<open>A store with a soft-deleted pack that still has its rows: a scheduled query
  and an explicit host target.\<close>

definition legacy_store :: datastore where
  "legacy_store = fresh_store\<lparr>
     packs := [\<lparr>p_id = 1, p_name = ''legacy'', p_description = ''old'', p_platform = ''mac'',
                p_disabled = False, p_deleted = True\<rparr>],
     scheduled_queries := [scheduled_query_of 1 q_uptime],
     pack_targets := [\<lparr>pt_pack_id = 1, pt_type = TargetHost, pt_target_id = Some 2\<rparr>]\<rparr>"

definition spec_legacy :: PackSpec where
  "spec_legacy = \<lparr>ps_ID = 0, ps_Name = ''legacy'', ps_Description = ''again'', ps_Platform = ''linux'',
     ps_Targets = \<lparr>Labels = [''linux'']\<rparr>, ps_Queries = [q_info]\<rparr>"

text \<open>A pack with one explicit host target, before any host has reported a label
  result, and the same store after host 3 reported a match for the label 2.\<close>

definition explicit_store :: datastore where
  "explicit_store = fresh_store\<lparr>
     packs := [\<lparr>p_id = 1, p_name = ''one'', p_description = ''first'', p_platform = ''linux'',
                p_disabled = False, p_deleted = False\<rparr>],
     pack_targets := [\<lparr>pt_pack_id = 1, pt_type = TargetHost, pt_target_id = Some 2\<rparr>]\<rparr>"

definition reported_store :: datastore where
  "reported_store = explicit_store\<lparr>
     label_query_executions := [\<lparr>lqe_host_id = 3, lqe_label_id = 2, lqe_matches = True\<rparr>]\<rparr>"

text \<open>A pack targeted at a label that was soft-deleted afterwards; host 1 had reported
  a match for it.\<close>

definition stale_store :: datastore where
  "stale_store = fresh_store\<lparr>
     packs := [\<lparr>p_id = 1, p_name = ''one'', p_description = ''first'', p_platform = ''linux'',
                p_disabled = False, p_deleted = False\<rparr>],
     labels := [\<lparr>l_id = 1, l_name = ''linux'', l_deleted = True\<rparr>,
                \<lparr>l_id = 2, l_name = ''mac'', l_deleted = False\<rparr>],
     pack_targets := [\<lparr>pt_pack_id = 1, pt_type = TargetLabel, pt_target_id = Some 1\<rparr>],
     label_query_executions := [\<lparr>lqe_host_id = 1, lqe_label_id = 1, lqe_matches = True\<rparr>]\<rparr>"

text \<open>A store that already has a live pack, without scheduled queries or targets.\<close>

definition base_store :: datastore where
  "base_store = fresh_store\<lparr>
     packs := [\<lparr>p_id = 1, p_name = ''base'', p_description = ''b'', p_platform = ''mac'',
                p_disabled = False, p_deleted = False\<rparr>]\<rparr>"

section \<open>The effect of a successful applyPackSpec\<close>

lemma insert_scheduled_queries_Inr:
  "insert_scheduled_queries F db packID qs = Inr db' \<Longrightarrow>
   db' = db\<lparr>scheduled_queries := scheduled_queries db @ map (scheduled_query_of packID) qs\<rparr>"
proof (induction qs arbitrary: db)
  case Nil
  then show ?case by simp
next
  case (Cons q qs)
  from Cons.prems obtain db1 where
    s1: "exec_insert_scheduled_query F db packID q = Inr db1" and
    s2: "insert_scheduled_queries F db1 packID qs = Inr db'"
    by (auto split: sum.splits if_splits)
  from s1 have d1: "db1 = db\<lparr>scheduled_queries := scheduled_queries db @ [scheduled_query_of packID q]\<rparr>"
    by (auto simp: exec_insert_scheduled_query_def split: if_splits)
  show ?case using Cons.IH[OF s2] d1 by simp
qed

lemma insert_targets_Inr:
  "insert_targets F db packID ls = Inr db' \<Longrightarrow>
   db' = db\<lparr>pack_targets := pack_targets db @ map (target_row_of (labels db) packID) ls\<rparr>"
proof (induction ls arbitrary: db)
  case Nil
  then show ?case by simp
next
  case (Cons l ls)
  from Cons.prems obtain db1 where
    s1: "exec_insert_target F db packID TargetLabel l = Inr db1" and
    s2: "insert_targets F db1 packID ls = Inr db'"
    by (auto split: sum.splits if_splits)
  from s1 have d1: "db1 = db\<lparr>pack_targets := pack_targets db @ [target_row_of (labels db) packID l]\<rparr>"
    by (auto simp: exec_insert_target_def target_row_of_def split: if_splits sum.splits)
  show ?case using Cons.IH[OF s2] d1 by simp
qed

lemma foldr_max_ge: "x \<in> set xs \<Longrightarrow> x \<le> foldr max xs (0::nat)"
  by (induction xs) auto

lemma next_pack_id_fresh: "next_pack_id ps \<notin> set (map p_id ps)"
proof
  assume "next_pack_id ps \<in> set (map p_id ps)"
  then have "next_pack_id ps \<le> foldr max (map p_id ps) 0" by (rule foldr_max_ge)
  then show False by (simp add: next_pack_id_def)
qed

lemma upsert_names:
  "map p_name (upsert_pack_rows ps name d pl) =
     (if name \<in> set (map p_name ps) then map p_name ps else map p_name ps @ [name])"
  by (induction ps) (auto simp: upsert_pack_rows_def)

lemma upsert_ids:
  "map p_id (upsert_pack_rows ps name d pl) =
     (if name \<in> set (map p_name ps) then map p_id ps else map p_id ps @ [next_pack_id ps])"
  by (induction ps) (auto simp: upsert_pack_rows_def)

lemma upsert_has_name:
  "name \<in> set (map p_name (upsert_pack_rows ps name d pl))"
  by (simp add: upsert_names)

lemma find_name_Some:
  "name \<in> set (map p_name ps) \<Longrightarrow> \<exists>p. find (\<lambda>p. p_name p = name) ps = Some p"
  by (induction ps) auto

lemma applyPackSpec_Inr:
  assumes "applyPackSpec F db s = Inr db'"
  shows "db' = applied db s"
proof -
  let ?ps = "upsert_pack_rows (packs db) (ps_Name s) (ps_Description s) (ps_Platform s)"
  let ?tx1 = "db\<lparr>packs := ?ps\<rparr>"
  from assms have u: "exec_upsert_pack F db (ps_Name s) (ps_Description s) (ps_Platform s) = Inr ?tx1"
    by (auto simp: applyPackSpec_def exec_upsert_pack_def split: sum.splits if_splits)
  from assms u obtain packID where g: "get_pack_id F ?tx1 (ps_Name s) = Inr packID"
    by (auto simp: applyPackSpec_def split: sum.splits)
  have pid: "packID = pack_id_of ?ps (ps_Name s)"
    using g by (auto simp: get_pack_id_def pack_id_of_def split: if_splits option.splits)
  let ?tx2 = "?tx1\<lparr>scheduled_queries := filter (\<lambda>r. sq_pack_id r \<noteq> packID) (scheduled_queries db)\<rparr>"
  from assms u g have d: "exec_delete_scheduled_queries F ?tx1 packID = Inr ?tx2"
    by (auto simp: applyPackSpec_def exec_delete_scheduled_queries_def split: sum.splits if_splits)
  from assms u g d obtain tx3 where i: "insert_scheduled_queries F ?tx2 packID (ps_Queries s) = Inr tx3"
    by (auto simp: applyPackSpec_def split: sum.splits)
  note t3 = insert_scheduled_queries_Inr[OF i]
  let ?tx4 = "tx3\<lparr>pack_targets := filter (\<lambda>r. pt_pack_id r \<noteq> packID) (pack_targets tx3)\<rparr>"
  from assms u g d i have dt: "exec_delete_targets F tx3 packID = Inr ?tx4"
    by (auto simp: applyPackSpec_def exec_delete_targets_def split: sum.splits if_splits)
  from assms u g d i dt have it: "insert_targets F ?tx4 packID (Labels (ps_Targets s)) = Inr db'"
    by (simp add: applyPackSpec_def)
  show ?thesis
    using insert_targets_Inr[OF it] t3 pid by (simp add: applied_def Let_def)
qed

lemma no_faults_app: "no_faults st \<longleftrightarrow> False"
  by (simp add: no_faults_def)

lemma insert_scheduled_queries_no_faults:
  "\<forall>q \<in> set qs. psq_QueryName q \<in> set (map q_name (queries db)) \<Longrightarrow>
   insert_scheduled_queries no_faults db packID qs =
     Inr (db\<lparr>scheduled_queries := scheduled_queries db @ map (scheduled_query_of packID) qs\<rparr>)"
  by (induction qs arbitrary: db) (simp_all add: exec_insert_scheduled_query_def no_faults_app)

lemma label_id_subquery_Inr:
  "length (filter (\<lambda>r. l_name r = l) ls) \<le> 1 \<Longrightarrow> \<exists>t. label_id_subquery ls l = Inr t"
  by (cases "filter (\<lambda>r. l_name r = l) ls"; cases "tl (filter (\<lambda>r. l_name r = l) ls)")
     (auto simp: label_id_subquery_def)

lemma insert_targets_no_faults:
  "\<forall>l \<in> set ls. length (filter (\<lambda>r. l_name r = l) (labels db)) \<le> 1 \<Longrightarrow>
   insert_targets no_faults db packID ls =
     Inr (db\<lparr>pack_targets := pack_targets db @ map (target_row_of (labels db) packID) ls\<rparr>)"
proof (induction ls arbitrary: db)
  case Nil
  then show ?case by simp
next
  case (Cons l ls)
  from Cons.prems obtain t where t: "label_id_subquery (labels db) l = Inr t"
    using label_id_subquery_Inr[of l "labels db"] by auto
  let ?db1 = "db\<lparr>pack_targets := pack_targets db @ [target_row_of (labels db) packID l]\<rparr>"
  have e: "exec_insert_target no_faults db packID TargetLabel l = Inr ?db1"
    using t by (simp add: exec_insert_target_def no_faults_app target_row_of_def)
  have "insert_targets no_faults ?db1 packID ls =
        Inr (?db1\<lparr>pack_targets := pack_targets ?db1 @ map (target_row_of (labels ?db1) packID) ls\<rparr>)"
    using Cons.prems by (intro Cons.IH) simp
  then show ?case using e by simp
qed

lemma applyPackSpec_no_faults:
  assumes "spec_ok db s"
  shows "applyPackSpec no_faults db s = Inr (applied db s)"
proof -
  let ?ps = "upsert_pack_rows (packs db) (ps_Name s) (ps_Description s) (ps_Platform s)"
  obtain p where p: "find (\<lambda>p. p_name p = ps_Name s) ?ps = Some p"
    using find_name_Some[OF upsert_has_name] by blast
  have pid: "pack_id_of ?ps (ps_Name s) = p_id p"
    using p by (simp add: pack_id_of_def)
  have q: "\<forall>q \<in> set (ps_Queries s). psq_QueryName q \<in> set (map q_name (queries db))"
    and l: "\<forall>l \<in> set (Labels (ps_Targets s)). length (filter (\<lambda>r. l_name r = l) (labels db)) \<le> 1"
    using assms by (simp_all add: spec_ok_def)
  show ?thesis
    using p pid
    using q l
    by (simp add: applyPackSpec_def exec_upsert_pack_def get_pack_id_def
        exec_delete_scheduled_queries_def exec_delete_targets_def no_faults_app
        insert_scheduled_queries_no_faults insert_targets_no_faults
        applied_def Let_def)
qed

section \<open>The pack row is upserted by name\<close>

text \<open>Claim C8. Whenever \<open>applyPackSpec\<close> succeeds, the packs table afterwards is
  determined by the name alone: if a row with the spec's name exists (soft-deleted or
  not), that row keeps its id and its \<open>disabled\<close> flag, takes the spec's description
  and platform and has \<open>deleted = false\<close>, and no row is added; otherwise one row
  with a new id is appended. The upsert raises no conflict: on a spec whose queries
  and labels resolve, \<open>applyPackSpec\<close> succeeds whether or not the name exists.\<close>

theorem applyPackSpec_upserts_by_name:
  "(applyPackSpec F db spec = Inr db' \<longrightarrow>
      (if ps_Name spec \<in> p_name ` set (packs db)
       then packs db' =
              map (\<lambda>p. if p_name p = ps_Name spec
                        then p\<lparr>p_description := ps_Description spec,
                               p_platform := ps_Platform spec, p_deleted := False\<rparr>
                        else p) (packs db)
       else packs db' =
              packs db @ [\<lparr>p_id = next_pack_id (packs db), p_name = ps_Name spec,
                            p_description = ps_Description spec,
                            p_platform = ps_Platform spec,
                            p_disabled = False, p_deleted = False\<rparr>]))
   \<and> (spec_ok db spec \<longrightarrow> (\<exists>db'. applyPackSpec no_faults db spec = Inr db'))"
proof (intro conjI impI)
  assume "applyPackSpec F db spec = Inr db'"
  then have "db' = applied db spec" by (rule applyPackSpec_Inr)
  then have "packs db' = upsert_pack_rows (packs db) (ps_Name spec) (ps_Description spec) (ps_Platform spec)"
    by (simp add: applied_def Let_def)
  moreover have "\<And>p. p_name p = ps_Name spec \<Longrightarrow> p\<lparr>p_name := ps_Name spec\<rparr> = p"
    by simp
  ultimately show "if ps_Name spec \<in> p_name ` set (packs db)
       then packs db' =
              map (\<lambda>p. if p_name p = ps_Name spec
                        then p\<lparr>p_description := ps_Description spec,
                               p_platform := ps_Platform spec, p_deleted := False\<rparr>
                        else p) (packs db)
       else packs db' =
              packs db @ [\<lparr>p_id = next_pack_id (packs db), p_name = ps_Name spec,
                            p_description = ps_Description spec,
                            p_platform = ps_Platform spec,
                            p_disabled = False, p_deleted = False\<rparr>]"
    by (auto simp: upsert_pack_rows_def)
next
  assume "spec_ok db spec"
  then show "\<exists>db'. applyPackSpec no_faults db spec = Inr db'"
    using applyPackSpec_no_faults by blast
qed

theorem applyPackSpec_upserts_by_name_witness:
  "\<exists>db'. applyPackSpec no_faults legacy_store spec_legacy = Inr db' \<and>
     packs db' = [\<lparr>p_id = 1, p_name = ''legacy'', p_description = ''again'',
                   p_platform = ''linux'', p_disabled = False, p_deleted = False\<rparr>]"
proof -
  have ok: "spec_ok legacy_store spec_legacy"
    by (simp add: spec_ok_def legacy_store_def fresh_store_def spec_legacy_def q_info_def)
  from applyPackSpec_upserts_by_name[of no_faults legacy_store spec_legacy] ok
  obtain db' where a: "applyPackSpec no_faults legacy_store spec_legacy = Inr db'"
    by blast
  from applyPackSpec_upserts_by_name[of no_faults legacy_store spec_legacy db'] a
  have "packs db' = [\<lparr>p_id = 1, p_name = ''legacy'', p_description = ''again'',
                   p_platform = ''linux'', p_disabled = False, p_deleted = False\<rparr>]"
    by (simp add: legacy_store_def fresh_store_def spec_legacy_def)
  with a show ?thesis by blast
qed

section \<open>The batch is one transaction\<close>

lemma apply_specs_append:
  "apply_specs F db (xs @ ys) =
     (case apply_specs F db xs of Inl e \<Rightarrow> Inl e | Inr tx \<Rightarrow> apply_specs F tx ys)"
  by (induction xs arbitrary: db) (auto split: sum.splits)

lemma apply_specs_Inr:
  "apply_specs F db specs = Inr tx \<Longrightarrow> tx = foldl applied db specs"
proof (induction specs arbitrary: db)
  case Nil
  then show ?case by simp
next
  case (Cons s specs)
  from Cons.prems obtain tx1 where
    a: "applyPackSpec F db s = Inr tx1" and b: "apply_specs F tx1 specs = Inr tx"
    by (auto split: sum.splits)
  from applyPackSpec_Inr[OF a] Cons.IH[OF b] show ?case by simp
qed

lemma apply_specs_first_failure:
  assumes "apply_specs F db pre = Inr tx" and "applyPackSpec F tx s = Inl e"
  shows "apply_specs F db (pre @ s # post) = Inl (Wrap (''applying pack '' @ quoted (ps_Name s)) e)"
  using assms by (simp add: apply_specs_append)

lemma quoted_text: "quoted s = [CHR 0x27] @ s @ [CHR 0x27]"
  by (simp add: quoted_def)

text \<open>Claim C1. \<open>ApplyPackSpecs\<close> is all-or-nothing over the batch, whatever store
  failures occur. If the transaction was begun and the spec \<open>s\<close> fails with \<open>e\<close>
  (at whichever inner step) after the specs before it succeeded, the store is the one
  before the call and the error returned is \<open>e\<close> wrapped with the text
  \<open>applying pack '\<close>, the name of \<open>s\<close>, \<open>'\<close>, so that its message is that text,
  a colon and a space, and the message of \<open>e\<close>. Every call that returns an error
  leaves the store as it was. A call that returns \<open>nil\<close> leaves the store in the
  state reached by applying every spec of the batch in order.\<close>

theorem ApplyPackSpecs_all_or_nothing:
  "(\<forall>pre s post tx e.
       \<not> F BeginTx \<and> specs = pre @ s # post \<and> apply_specs F db pre = Inr tx \<and>
       applyPackSpec F tx s = Inl e \<longrightarrow>
       ApplyPackSpecs F db specs
         = (Some (Wrap (''applying pack '' @ [CHR 0x27] @ ps_Name s @ [CHR 0x27]) e), db) \<and>
       error_message (Wrap (''applying pack '' @ [CHR 0x27] @ ps_Name s @ [CHR 0x27]) e)
         = ''applying pack '' @ [CHR 0x27] @ ps_Name s @ [CHR 0x27] @ '': '' @ error_message e)
   \<and> (\<forall>e db'. ApplyPackSpecs F db specs = (Some e, db') \<longrightarrow> db' = db)
   \<and> (\<forall>db'. ApplyPackSpecs F db specs = (None, db') \<longrightarrow>
         apply_specs F db specs = Inr db' \<and> db' = foldl applied db specs)"
proof (intro conjI allI impI)
  fix pre s post tx e
  assume h: "\<not> F BeginTx \<and> specs = pre @ s # post \<and> apply_specs F db pre = Inr tx \<and>
       applyPackSpec F tx s = Inl e"
  then have "apply_specs F db specs = Inl (Wrap (''applying pack '' @ quoted (ps_Name s)) e)"
    using apply_specs_first_failure by blast
  with h show "ApplyPackSpecs F db specs
         = (Some (Wrap (''applying pack '' @ [CHR 0x27] @ ps_Name s @ [CHR 0x27]) e), db)"
    by (simp add: ApplyPackSpecs_def quoted_text)
  show "error_message (Wrap (''applying pack '' @ [CHR 0x27] @ ps_Name s @ [CHR 0x27]) e)
         = ''applying pack '' @ [CHR 0x27] @ ps_Name s @ [CHR 0x27] @ '': '' @ error_message e"
    by simp
next
  fix e db'
  assume "ApplyPackSpecs F db specs = (Some e, db')"
  then show "db' = db"
    by (auto simp: ApplyPackSpecs_def split: if_splits sum.splits)
next
  fix db'
  assume h: "ApplyPackSpecs F db specs = (None, db')"
  then show a: "apply_specs F db specs = Inr db'"
    by (auto simp: ApplyPackSpecs_def split: if_splits sum.splits)
  then show "db' = foldl applied db specs" by (rule apply_specs_Inr)
qed

lemmas apply_defs = ApplyPackSpecs_def applyPackSpec_def exec_upsert_pack_def upsert_pack_rows_def
  next_pack_id_def get_pack_id_def exec_delete_scheduled_queries_def
  exec_insert_scheduled_query_def exec_delete_targets_def exec_insert_target_def
  label_id_subquery_def scheduled_query_of_def isChildForeignKeyError_def no_faults_app

lemmas example_defs = fresh_store_def legacy_store_def spec_one_def spec_two_def spec_three_def
  spec_orphan_def spec_legacy_def q_uptime_def q_info_def q_unknown_def

theorem ApplyPackSpecs_all_or_nothing_witness:
  "ApplyPackSpecs no_faults fresh_store [spec_one, spec_two, spec_three] =
     (Some (Wrap (''applying pack '' @ [CHR 0x27] @ ''two'' @ [CHR 0x27])
              (Errorf (''cannot schedule unknown query '' @ [CHR 0x27] @ ''nope'' @ [CHR 0x27]))),
      fresh_store)
   \<and> error_message (Wrap (''applying pack '' @ [CHR 0x27] @ ''two'' @ [CHR 0x27])
              (Errorf (''cannot schedule unknown query '' @ [CHR 0x27] @ ''nope'' @ [CHR 0x27])))
       = ''applying pack '' @ [CHR 0x27] @ ''two'' @ [CHR 0x27]
           @ '': cannot schedule unknown query '' @ [CHR 0x27] @ ''nope'' @ [CHR 0x27]
   \<and> (\<exists>db'. ApplyPackSpecs no_faults fresh_store [spec_one, spec_three] = (None, db') \<and>
         db' = foldl applied fresh_store [spec_one, spec_three] \<and>
         map p_name (packs db') = [''one'', ''three''])"
proof -
  let ?specs = "[spec_one, spec_two, spec_three]"
  let ?e = "Errorf (''cannot schedule unknown query '' @ [CHR 0x27] @ ''nope'' @ [CHR 0x27])"
  have 1: "apply_specs no_faults fresh_store [spec_one] = Inr (applied fresh_store spec_one)"
    by (simp add: applyPackSpec_no_faults spec_ok_def example_defs)
  have 2: "applyPackSpec no_faults (applied fresh_store spec_one) spec_two = Inl ?e"
    by (simp add: applied_def pack_id_of_def target_row_of_def apply_defs quoted_text example_defs)
  have n: "ps_Name spec_two = ''two''" by (simp add: spec_two_def)
  have 0: "\<not> no_faults BeginTx \<and> ?specs = [spec_one] @ spec_two # [spec_three] \<and>
      apply_specs no_faults fresh_store [spec_one] = Inr (applied fresh_store spec_one) \<and>
      applyPackSpec no_faults (applied fresh_store spec_one) spec_two = Inl ?e"
    using 1 2 by (simp add: no_faults_app)
  have a: "ApplyPackSpecs no_faults fresh_store ?specs
         = (Some (Wrap (''applying pack '' @ [CHR 0x27] @ ps_Name spec_two @ [CHR 0x27]) ?e),
            fresh_store) \<and>
       error_message (Wrap (''applying pack '' @ [CHR 0x27] @ ps_Name spec_two @ [CHR 0x27]) ?e)
         = ''applying pack '' @ [CHR 0x27] @ ps_Name spec_two @ [CHR 0x27] @ '': ''
             @ error_message ?e"
    using ApplyPackSpecs_all_or_nothing[of no_faults ?specs fresh_store, THEN conjunct1,
        rule_format, OF 0] .
  obtain r db' where b: "ApplyPackSpecs no_faults fresh_store [spec_one, spec_three] = (r, db')"
    by (cases "ApplyPackSpecs no_faults fresh_store [spec_one, spec_three]")
  have r: "r = None" and p: "map p_name (packs db') = [''one'', ''three'']"
    using b by (auto simp: apply_defs example_defs)
  from ApplyPackSpecs_all_or_nothing[of no_faults "[spec_one, spec_three]" fresh_store] b r
  have "db' = foldl applied fresh_store [spec_one, spec_three]" by blast
  with a b r p n show ?thesis by simp
qed

lemma exec_upsert_pack_nf:
  "exec_upsert_pack no_faults db name d pl =
     Inr (db\<lparr>packs := upsert_pack_rows (packs db) name d pl\<rparr>)"
  by (simp add: exec_upsert_pack_def no_faults_def)

lemma get_pack_id_nf:
  "get_pack_id no_faults db name =
     (case find (\<lambda>p. p_name p = name) (packs db) of
        None \<Rightarrow> Inl ErrNoRows | Some p \<Rightarrow> Inr (p_id p))"
  by (simp add: get_pack_id_def no_faults_def)

lemma exec_delete_scheduled_queries_nf:
  "exec_delete_scheduled_queries no_faults db packID =
     Inr (db\<lparr>scheduled_queries := filter (\<lambda>r. sq_pack_id r \<noteq> packID) (scheduled_queries db)\<rparr>)"
  by (simp add: exec_delete_scheduled_queries_def no_faults_def)

lemma exec_insert_scheduled_query_nf:
  "exec_insert_scheduled_query no_faults db packID q =
     (if psq_QueryName q \<notin> set (map q_name (queries db)) then Inl ErrNoReferencedRow
      else Inr (db\<lparr>scheduled_queries := scheduled_queries db @ [scheduled_query_of packID q]\<rparr>))"
  by (simp add: exec_insert_scheduled_query_def no_faults_def)

lemma exec_delete_targets_nf:
  "exec_delete_targets no_faults db packID =
     Inr (db\<lparr>pack_targets := filter (\<lambda>r. pt_pack_id r \<noteq> packID) (pack_targets db)\<rparr>)"
  by (simp add: exec_delete_targets_def no_faults_def)

lemma exec_insert_target_nf:
  "exec_insert_target no_faults db packID ty l =
     (case label_id_subquery (labels db) l of
        Inl e \<Rightarrow> Inl e
      | Inr tid \<Rightarrow>
          Inr (db\<lparr>pack_targets := pack_targets db @
                     [\<lparr>pt_pack_id = packID, pt_type = ty, pt_target_id = tid\<rparr>]\<rparr>))"
  by (simp add: exec_insert_target_def no_faults_def)

lemma ApplyPackSpecs_nf:
  "ApplyPackSpecs no_faults db specs =
     (case apply_specs no_faults db specs of Inl e \<Rightarrow> (Some e, db) | Inr tx \<Rightarrow> (None, tx))"
  by (simp add: ApplyPackSpecs_def no_faults_def split: sum.splits)

lemmas nf_simps = exec_upsert_pack_nf get_pack_id_nf exec_delete_scheduled_queries_nf
  exec_insert_scheduled_query_nf exec_delete_targets_nf exec_insert_target_nf ApplyPackSpecs_nf

section \<open>References to unknown queries\<close>

lemma insert_scheduled_queries_unknown:
  assumes "\<exists>q \<in> set qs. psq_QueryName q \<notin> set (map q_name (queries db))"
  shows "\<exists>q \<in> set qs. psq_QueryName q \<notin> set (map q_name (queries db)) \<and>
           insert_scheduled_queries no_faults db packID qs =
             Inl (Errorf (''cannot schedule unknown query '' @ quoted (psq_QueryName q)))"
  using assms
proof (induction qs arbitrary: db)
  case Nil
  then show ?case by simp
next
  case (Cons q qs)
  show ?case
  proof (cases "psq_QueryName q \<in> set (map q_name (queries db))")
    case False
    then show ?thesis
      by (auto simp: exec_insert_scheduled_query_nf isChildForeignKeyError_def)
  next
    case True
    let ?db1 = "db\<lparr>scheduled_queries := scheduled_queries db @ [scheduled_query_of packID q]\<rparr>"
    from True Cons.prems
    have "\<exists>q \<in> set qs. psq_QueryName q \<notin> set (map q_name (queries ?db1))" by auto
    from Cons.IH[OF this] obtain q' where
      "q' \<in> set qs" "psq_QueryName q' \<notin> set (map q_name (queries db))"
      "insert_scheduled_queries no_faults ?db1 packID qs =
         Inl (Errorf (''cannot schedule unknown query '' @ quoted (psq_QueryName q')))"
      by auto
    with True show ?thesis
      by (auto simp: exec_insert_scheduled_query_nf)
  qed
qed

lemma applyPackSpec_unknown_query:
  assumes "\<exists>q \<in> set (ps_Queries s). psq_QueryName q \<notin> set (map q_name (queries db))"
  shows "\<exists>q \<in> set (ps_Queries s). psq_QueryName q \<notin> set (map q_name (queries db)) \<and>
           applyPackSpec no_faults db s =
             Inl (Errorf (''cannot schedule unknown query '' @ quoted (psq_QueryName q)))"
proof -
  let ?ps = "upsert_pack_rows (packs db) (ps_Name s) (ps_Description s) (ps_Platform s)"
  obtain p where p: "find (\<lambda>p. p_name p = ps_Name s) ?ps = Some p"
    using find_name_Some[OF upsert_has_name] by blast
  let ?tx2 = "db\<lparr>packs := ?ps,
      scheduled_queries := filter (\<lambda>r. sq_pack_id r \<noteq> p_id p) (scheduled_queries db)\<rparr>"
  from assms have "\<exists>q \<in> set (ps_Queries s). psq_QueryName q \<notin> set (map q_name (queries ?tx2))"
    by simp
  from insert_scheduled_queries_unknown[OF this, of "p_id p"] obtain q where
    q: "q \<in> set (ps_Queries s)" "psq_QueryName q \<notin> set (map q_name (queries db))"
    "insert_scheduled_queries no_faults ?tx2 (p_id p) (ps_Queries s) =
       Inl (Errorf (''cannot schedule unknown query '' @ quoted (psq_QueryName q)))"
    by auto
  have "applyPackSpec no_faults db s =
          Inl (Errorf (''cannot schedule unknown query '' @ quoted (psq_QueryName q)))"
    using p q(3)
    by (simp add: applyPackSpec_def nf_simps)
  with q show ?thesis by blast
qed

lemma applied_queries: "queries (applied db s) = queries db"
  by (simp add: applied_def Let_def)

lemma applied_labels: "labels (applied db s) = labels db"
  by (simp add: applied_def Let_def)

lemma distinct_filter_le1:
  "distinct (map f xs) \<Longrightarrow> length (filter (\<lambda>r. f r = v) xs) \<le> 1"
  by (induction xs) (auto simp: filter_empty_conv image_iff)

lemma spec_ok_I:
  assumes "distinct (map l_name (labels db))"
    and "\<forall>q \<in> set (ps_Queries s). psq_QueryName q \<in> set (map q_name (queries db))"
  shows "spec_ok db s"
  using assms distinct_filter_le1[of l_name "labels db"] by (simp add: spec_ok_def)

lemma apply_specs_unknown_query:
  assumes "distinct (map l_name (labels db))"
    and "\<exists>s \<in> set specs. \<exists>q \<in> set (ps_Queries s). psq_QueryName q \<notin> set (map q_name (queries db))"
  shows "\<exists>s \<in> set specs. \<exists>q \<in> set (ps_Queries s).
           psq_QueryName q \<notin> set (map q_name (queries db)) \<and>
           apply_specs no_faults db specs =
             Inl (Wrap (''applying pack '' @ quoted (ps_Name s))
                    (Errorf (''cannot schedule unknown query '' @ quoted (psq_QueryName q))))"
  using assms
proof (induction specs arbitrary: db)
  case Nil
  then show ?case by simp
next
  case (Cons s specs)
  show ?case
  proof (cases "\<exists>q \<in> set (ps_Queries s). psq_QueryName q \<notin> set (map q_name (queries db))")
    case True
    from applyPackSpec_unknown_query[OF True] show ?thesis by auto
  next
    case False
    then have ok: "spec_ok db s" using Cons.prems(1) by (intro spec_ok_I) auto
    have a: "applyPackSpec no_faults db s = Inr (applied db s)"
      by (rule applyPackSpec_no_faults[OF ok])
    from False Cons.prems(2)
    have "\<exists>s \<in> set specs. \<exists>q \<in> set (ps_Queries s).
            psq_QueryName q \<notin> set (map q_name (queries (applied db s)))"
      by (auto simp: applied_queries)
    moreover have "distinct (map l_name (labels (applied db s)))"
      using Cons.prems(1) by (simp add: applied_labels)
    ultimately obtain s' q' where
      "s' \<in> set specs" "q' \<in> set (ps_Queries s')"
      "psq_QueryName q' \<notin> set (map q_name (queries db))"
      "apply_specs no_faults (applied db s) specs =
             Inl (Wrap (''applying pack '' @ quoted (ps_Name s'))
                    (Errorf (''cannot schedule unknown query '' @ quoted (psq_QueryName q'))))"
      using Cons.IH[of "applied db s"] by (auto simp: applied_queries)
    with a show ?thesis by auto
  qed
qed

text \<open>Claim C4. On a store without failures of its own and with unique label names,
  if some scheduled query of some spec of the batch names a query that does not exist,
  \<open>ApplyPackSpecs\<close> returns, for such a pack and query name (the first one met), the
  error whose message is \<open>applying pack '\<close>, the pack's name, \<open>': cannot schedule
  unknown query '\<close>, the query name, \<open>'\<close>: the error built by the foreign-key
  branch, not the wrapped driver error. The store is left as it was before the call,
  so no scheduled-query row of the batch remains.\<close>

theorem unknown_query_is_reported:
  assumes "distinct (map l_name (labels db))"
    and "\<exists>s \<in> set specs. \<exists>q \<in> set (ps_Queries s). psq_QueryName q \<notin> set (map q_name (queries db))"
  shows "\<exists>s \<in> set specs. \<exists>q \<in> set (ps_Queries s).
           psq_QueryName q \<notin> set (map q_name (queries db)) \<and>
           (\<exists>e. ApplyPackSpecs no_faults db specs = (Some e, db) \<and>
                e = Wrap (''applying pack '' @ [CHR 0x27] @ ps_Name s @ [CHR 0x27])
                      (Errorf (''cannot schedule unknown query '' @ [CHR 0x27]
                                 @ psq_QueryName q @ [CHR 0x27])) \<and>
                error_message e =
                  ''applying pack '' @ [CHR 0x27] @ ps_Name s @ [CHR 0x27]
                    @ '': cannot schedule unknown query '' @ [CHR 0x27]
                    @ psq_QueryName q @ [CHR 0x27])"
proof -
  from apply_specs_unknown_query[OF assms] obtain s q where
    h: "s \<in> set specs" "q \<in> set (ps_Queries s)"
       "psq_QueryName q \<notin> set (map q_name (queries db))"
       "apply_specs no_faults db specs =
             Inl (Wrap (''applying pack '' @ quoted (ps_Name s))
                    (Errorf (''cannot schedule unknown query '' @ quoted (psq_QueryName q))))"
    by blast
  from h(4) have "ApplyPackSpecs no_faults db specs =
     (Some (Wrap (''applying pack '' @ [CHR 0x27] @ ps_Name s @ [CHR 0x27])
                    (Errorf (''cannot schedule unknown query '' @ [CHR 0x27]
                                 @ psq_QueryName q @ [CHR 0x27]))), db)"
    by (simp add: ApplyPackSpecs_nf quoted_text)
  with h(1-3) show ?thesis by auto
qed

theorem unknown_query_is_reported_witness:
  "\<exists>e. ApplyPackSpecs no_faults legacy_store [spec_one, spec_two, spec_three] = (Some e, legacy_store)
     \<and> error_message e = ''applying pack '' @ [CHR 0x27] @ ''two'' @ [CHR 0x27]
          @ '': cannot schedule unknown query '' @ [CHR 0x27] @ ''nope'' @ [CHR 0x27]
     \<and> [r \<leftarrow> scheduled_queries legacy_store. sq_query_name r = ''nope''] = []"
proof -
  have l: "distinct (map l_name (labels legacy_store))"
    by (simp add: example_defs)
  have u: "\<exists>s \<in> set [spec_one, spec_two, spec_three]. \<exists>q \<in> set (ps_Queries s).
             psq_QueryName q \<notin> set (map q_name (queries legacy_store))"
    by (simp add: example_defs)
  from unknown_query_is_reported[OF l u] obtain s q e where
    h: "s \<in> set [spec_one, spec_two, spec_three]" "q \<in> set (ps_Queries s)"
       "psq_QueryName q \<notin> set (map q_name (queries legacy_store))"
       "ApplyPackSpecs no_faults legacy_store [spec_one, spec_two, spec_three] = (Some e, legacy_store)"
       "error_message e =
                  ''applying pack '' @ [CHR 0x27] @ ps_Name s @ [CHR 0x27]
                    @ '': cannot schedule unknown query '' @ [CHR 0x27]
                    @ psq_QueryName q @ [CHR 0x27]"
    by blast
  from h(1-3) have "s = spec_two \<and> psq_QueryName q = ''nope''"
    by (auto simp: example_defs)
  then have "ps_Name s = ''two''" "psq_QueryName q = ''nope''"
    by (simp_all add: spec_two_def)
  with h(4,5) show ?thesis by (simp add: legacy_store_def fresh_store_def scheduled_query_of_def q_uptime_def)
qed

section \<open>The read paths without store failures\<close>

lemmas store_defs = explicit_store_def reported_store_def stale_store_def

lemma ListHostsInPack_nf:
  "ListHostsInPack no_faults db pid opt =
     Inr (opt (remdups
             [h_id h. h \<leftarrow> hosts db, pt \<leftarrow> pack_targets db, lqe \<leftarrow> label_query_executions db,
                (pt_target_id pt = Some (lqe_label_id lqe) \<and> lqe_host_id lqe = h_id h
                   \<and> lqe_matches lqe \<and> pt_type pt = TargetLabel)
                \<or> (pt_target_id pt = Some (h_id h) \<and> pt_type pt = TargetHost),
                pt_pack_id pt = pid]))"
  by (simp add: ListHostsInPack_def no_faults_def)

lemma ListExplicitHostsInPack_nf:
  "ListExplicitHostsInPack no_faults db pid opt =
     Inr (opt (remdups
             [h_id h. h \<leftarrow> hosts db, pt \<leftarrow> pack_targets db,
                pt_target_id pt = Some (h_id h) \<and> pt_type pt = TargetHost,
                pt_pack_id pt = pid]))"
  by (simp add: ListExplicitHostsInPack_def no_faults_def)

lemma ListPacksForHost_nf:
  "ListPacksForHost no_faults db hid =
     Inr (remdups
             [p. p \<leftarrow> packs db, pt \<leftarrow> pack_targets db, lqe \<leftarrow> label_query_executions db,
                p_id p = pt_pack_id pt \<and> pt_target_id pt = Some (lqe_label_id lqe)
                  \<and> pt_type pt = TargetLabel \<and> lqe_matches lqe,
                lqe_host_id lqe = hid \<and> \<not> p_disabled p])"
  by (simp add: ListPacksForHost_def no_faults_def)

lemma ListLabelsForPack_nf:
  "ListLabelsForPack no_faults db pid =
     Inr [l. l \<leftarrow> labels db, pt \<leftarrow> pack_targets db,
                  pt_target_id pt = Some (l_id l),
                  pt_type pt = TargetLabel \<and> pt_pack_id pt = pid \<and> \<not> l_deleted l]"
  by (simp add: ListLabelsForPack_def no_faults_def)

lemma load_targets_nf:
  "load_targets no_faults db specs =
     Inr (map (\<lambda>spec. spec\<lparr>ps_Targets := \<lparr>Labels = select_target_labels db (ps_ID spec) TargetLabel\<rparr>\<rparr>) specs)"
  by (induction specs) (simp_all add: no_faults_def)

lemma load_queries_nf:
  "load_queries no_faults db specs =
     Inr (map (\<lambda>spec. spec\<lparr>ps_Queries := select_pack_queries db (ps_ID spec)\<rparr>) specs)"
  by (induction specs) (simp_all add: no_faults_def)

lemma GetPackSpecs_nf:
  "GetPackSpecs no_faults db = Inr (map (read_spec db) (packs db))"
  by (simp add: GetPackSpecs_def load_targets_nf load_queries_nf no_faults_app
      basic_spec_def read_spec_def comp_def)

lemma PackByName_nf:
  "PackByName no_faults db name = Inr (find (\<lambda>p. p_name p = name \<and> \<not> p_deleted p) (packs db))"
  by (simp add: PackByName_def no_faults_def)

lemma Pack_nf:
  "Pack no_faults db pid =
     (case find (\<lambda>p. p_id p = pid \<and> \<not> p_deleted p) (packs db) of
             None \<Rightarrow> Inl (NotFound ''Pack'' pid)
           | Some p \<Rightarrow> Inr p)"
  by (simp add: Pack_def no_faults_def)

lemma ListPacks_nf:
  "ListPacks no_faults db opt = Inr (opt (filter (\<lambda>p. \<not> p_deleted p) (packs db)))"
  by (simp add: ListPacks_def no_faults_def)

section \<open>Targets that name no label\<close>

text \<open>Claim C5, evaluated on the code. The batch \<open>[spec_orphan]\<close> has one target
  label, \<open>ghost\<close>, and the store has no label of that name. \<open>ApplyPackSpecs\<close> returns
  \<open>nil\<close> and commits a target row of kind Label whose \<open>target_id\<close> is \<open>NULL\<close>: no
  error is raised, unlike for an unknown query name.\<close>

theorem unknown_label_is_accepted:
  "''ghost'' \<notin> set (map l_name (labels fresh_store)) \<and>
   Labels (ps_Targets spec_orphan) = [''ghost''] \<and>
   ApplyPackSpecs no_faults fresh_store [spec_orphan] =
     (None, fresh_store\<lparr>
        packs := [\<lparr>p_id = 1, p_name = ''orphan'', p_description = [], p_platform = [],
                   p_disabled = False, p_deleted = False\<rparr>],
        pack_targets := [\<lparr>pt_pack_id = 1, pt_type = TargetLabel, pt_target_id = None\<rparr>]\<rparr>)"
  by (simp add: applyPackSpec_def nf_simps upsert_pack_rows_def next_pack_id_def
      label_id_subquery_def example_defs)

section \<open>Resolving targets\<close>

text \<open>What the two resolver queries return without store failures: the distinct
  rows of their three-way joins. An explicit host target yields its host in
  \<open>ListHostsInPack\<close> only together with some row of the label query executions, and
  \<open>ListPacksForHost\<close> has no alternative for explicit host targets at all; it never
  returns a disabled pack.\<close>

lemma set_join3:
  "set [f x. x \<leftarrow> xs, y \<leftarrow> ys, z \<leftarrow> zs, P x y z, Q x y z]
     = {i. \<exists>x \<in> set xs. \<exists>y \<in> set ys. \<exists>z \<in> set zs. i = f x \<and> P x y z \<and> Q x y z}"
  by (auto split: if_splits)

lemma ListHostsInPack_set:
  "\<exists>hs. ListHostsInPack no_faults db pid all_rows = Inr hs \<and> distinct hs \<and>
     set hs =
     {i. \<exists>h \<in> set (hosts db). \<exists>pt \<in> set (pack_targets db). \<exists>lqe \<in> set (label_query_executions db).
           i = h_id h \<and>
           ((pt_target_id pt = Some (lqe_label_id lqe) \<and> lqe_host_id lqe = h_id h \<and>
             lqe_matches lqe \<and> pt_type pt = TargetLabel)
            \<or> (pt_target_id pt = Some (h_id h) \<and> pt_type pt = TargetHost)) \<and>
           pt_pack_id pt = pid}"
proof -
  let ?hs = "remdups
             [h_id h. h \<leftarrow> hosts db, pt \<leftarrow> pack_targets db, lqe \<leftarrow> label_query_executions db,
                (pt_target_id pt = Some (lqe_label_id lqe) \<and> lqe_host_id lqe = h_id h
                   \<and> lqe_matches lqe \<and> pt_type pt = TargetLabel)
                \<or> (pt_target_id pt = Some (h_id h) \<and> pt_type pt = TargetHost),
                pt_pack_id pt = pid]"
  have 1: "ListHostsInPack no_faults db pid all_rows = Inr ?hs"
    unfolding ListHostsInPack_nf all_rows_def ..
  have 2: "distinct ?hs" by (rule distinct_remdups)
  show ?thesis
    by (rule exI[of _ ?hs], intro conjI, rule 1, rule 2) (simp only: set_remdups set_join3)
qed

lemma ListPacksForHost_set:
  "\<exists>ps. ListPacksForHost no_faults db hid = Inr ps \<and> distinct ps \<and>
     set ps =
     {i. \<exists>p \<in> set (packs db). \<exists>pt \<in> set (pack_targets db). \<exists>lqe \<in> set (label_query_executions db).
           i = p \<and>
           (p_id p = pt_pack_id pt \<and> pt_target_id pt = Some (lqe_label_id lqe) \<and>
            pt_type pt = TargetLabel \<and> lqe_matches lqe) \<and>
           (lqe_host_id lqe = hid \<and> \<not> p_disabled p)}"
proof -
  let ?ps = "remdups
             [p. p \<leftarrow> packs db, pt \<leftarrow> pack_targets db, lqe \<leftarrow> label_query_executions db,
                p_id p = pt_pack_id pt \<and> pt_target_id pt = Some (lqe_label_id lqe)
                  \<and> pt_type pt = TargetLabel \<and> lqe_matches lqe,
                lqe_host_id lqe = hid \<and> \<not> p_disabled p]"
  have 1: "ListPacksForHost no_faults db hid = Inr ?ps"
    unfolding ListPacksForHost_nf ..
  have 2: "distinct ?ps" by (rule distinct_remdups)
  show ?thesis
    by (rule exI[of _ ?ps], intro conjI, rule 1, rule 2) (simp only: set_remdups set_join3)
qed

text \<open>The three pack lookups filter on \<open>NOT deleted\<close>.\<close>

lemma find_Some_live: "find (\<lambda>p. Q p \<and> \<not> p_deleted p) ps = Some p \<Longrightarrow> \<not> p_deleted p"
  by (induction ps) (auto split: if_splits)

lemma soft_deleted_pack_hidden:
  assumes "p_deleted p"
  shows "\<forall>ps. ListPacks no_faults db all_rows = Inr ps \<longrightarrow> p \<notin> set ps"
    and "PackByName no_faults db name \<noteq> Inr (Some p)"
    and "Pack no_faults db pid \<noteq> Inr p"
proof -
  show "\<forall>ps. ListPacks no_faults db all_rows = Inr ps \<longrightarrow> p \<notin> set ps"
    using assms by (auto simp: ListPacks_nf all_rows_def)
  show "PackByName no_faults db name \<noteq> Inr (Some p)"
    using assms by (auto simp: PackByName_nf dest: find_Some_live)
  show "Pack no_faults db pid \<noteq> Inr p"
    using assms by (auto simp: Pack_nf split: option.splits dest: find_Some_live)
qed

text \<open>Claim C3, evaluated on the code. Pack 1 of \<open>explicit_store\<close> has the explicit
  host target 2 (\<open>ListExplicitHostsInPack\<close> returns it) and the table of label query
  executions is empty. The three-way join of \<open>ListHostsInPack\<close> has then no row at
  all, and the host is missing from the result.\<close>

theorem explicit_host_lost_without_executions:
  "label_query_executions explicit_store = [] \<and>
   ListExplicitHostsInPack no_faults explicit_store 1 all_rows = Inr [2] \<and>
   ListHostsInPack no_faults explicit_store 1 all_rows = Inr []"
  by (simp add: ListHostsInPack_nf ListExplicitHostsInPack_nf all_rows_def store_defs example_defs)

text \<open>Claim C7, evaluated on the code. In \<open>reported_store\<close> host 2 is an explicit
  target of the enabled pack 1, and \<open>ListHostsInPack\<close> resolves pack 1 to host 2; the
  query of \<open>ListPacksForHost\<close> joins label targets only and returns no pack for
  host 2.\<close>

theorem explicit_host_not_in_packs_for_host:
  "ListHostsInPack no_faults reported_store 1 all_rows = Inr [2] \<and>
   ListPacksForHost no_faults reported_store 2 = Inr []"
  by (simp add: ListHostsInPack_nf ListPacksForHost_nf all_rows_def store_defs example_defs)

text \<open>Claim C9, evaluated on the code. The pack of \<open>legacy_store\<close> is soft-deleted:
  \<open>ListPacks\<close>, \<open>PackByName\<close> and \<open>Pack\<close> do not return it, \<open>GetPackSpecs\<close> does.
  The label 1 of \<open>stale_store\<close> is soft-deleted: \<open>ListLabelsForPack\<close> does not
  return it, and \<open>ListHostsInPack\<close> still resolves the pack to host 1 through it.\<close>

theorem soft_deleted_rows_still_read:
  "ListPacks no_faults legacy_store all_rows = Inr [] \<and>
   PackByName no_faults legacy_store ''legacy'' = Inr None \<and>
   Pack no_faults legacy_store 1 = Inl (NotFound ''Pack'' 1) \<and>
   GetPackSpecs no_faults legacy_store =
     Inr [\<lparr>ps_ID = 1, ps_Name = ''legacy'', ps_Description = ''old'', ps_Platform = ''mac'',
           ps_Targets = \<lparr>Labels = []\<rparr>, ps_Queries = [q_uptime]\<rparr>] \<and>
   ListLabelsForPack no_faults stale_store 1 = Inr [] \<and>
   ListHostsInPack no_faults stale_store 1 all_rows = Inr [1]"
  by (simp add: ListPacks_nf PackByName_nf Pack_nf GetPackSpecs_nf read_spec_def
      select_target_labels_def select_pack_queries_def spec_query_of_def scheduled_query_of_def
      ListLabelsForPack_nf ListHostsInPack_nf all_rows_def store_defs example_defs)

section \<open>What a batch leaves for each pack\<close>

lemma pack_keys_upsert:
  assumes "distinct (map p_id ps)" "distinct (map p_name ps)"
  shows "distinct (map p_id (upsert_pack_rows ps n d pl))"
    and "distinct (map p_name (upsert_pack_rows ps n d pl))"
  using assms next_pack_id_fresh[of ps] by (simp_all add: upsert_ids upsert_names)

lemma applied_packs:
  "packs (applied db s) = upsert_pack_rows (packs db) (ps_Name s) (ps_Description s) (ps_Platform s)"
  by (simp add: applied_def Let_def)

lemma pack_keys_applied: "pack_keys db \<Longrightarrow> pack_keys (applied db s)"
  using pack_keys_upsert by (simp add: pack_keys_def applied_packs)

lemma pack_keys_foldl: "pack_keys db \<Longrightarrow> pack_keys (foldl applied db specs)"
  by (induction specs arbitrary: db) (simp_all add: pack_keys_applied)

lemma find_Some_name:
  "find (\<lambda>p. p_name p = n) ps = Some p \<Longrightarrow> p \<in> set ps \<and> p_name p = n"
  by (induction ps) (auto split: if_splits)

lemma upsert_row_named:
  assumes "p \<in> set (upsert_pack_rows ps n d pl)" and "p_name p = n"
  shows "p_description p = d \<and> p_platform p = pl \<and> \<not> p_deleted p"
proof (cases "n \<in> set (map p_name ps)")
  case True
  with assms(1) obtain q where q: "q \<in> set ps"
    "p = (if p_name q = n
          then q\<lparr>p_name := n, p_description := d, p_platform := pl, p_deleted := False\<rparr>
          else q)"
    by (auto simp: upsert_pack_rows_def)
  show ?thesis
  proof (cases "p_name q = n")
    case True
    with q(2) show ?thesis by simp
  next
    case False
    with q(2) assms(2) show ?thesis by simp
  qed
next
  case False
  with assms have "p = \<lparr>p_id = next_pack_id ps, p_name = n, p_description = d,
                  p_platform = pl, p_disabled = False, p_deleted = False\<rparr>"
    by (auto simp: upsert_pack_rows_def)
  then show ?thesis by (cases p) simp
qed

lemma upsert_row_other:
  "p_name p \<noteq> n \<Longrightarrow> p \<in> set (upsert_pack_rows ps n d pl) \<longleftrightarrow> p \<in> set ps"
  by (auto simp: upsert_pack_rows_def split: if_splits)

lemma filter_refill_same:
  "\<forall>r \<in> set new. key r = pid \<Longrightarrow>
   filter (\<lambda>r. key r = pid) (filter (\<lambda>r. key r \<noteq> pid) xs @ new) = new"
  by (induction xs) (auto simp: filter_id_conv)

lemma filter_refill_other:
  "\<forall>r \<in> set new. key r = pid \<Longrightarrow> pid' \<noteq> pid \<Longrightarrow>
   filter (\<lambda>r. key r = pid') (filter (\<lambda>r. key r \<noteq> pid) xs @ new) = filter (\<lambda>r. key r = pid') xs"
  by (induction xs) (auto simp: filter_empty_conv)

lemma sq_pack_id_of: "sq_pack_id (scheduled_query_of pid q) = pid"
  by (simp add: scheduled_query_of_def)

lemma pt_pack_id_of: "pt_pack_id (target_row_of ls pid l) = pid"
  by (simp add: target_row_of_def)

lemma applied_row:
  obtains p where "p \<in> set (packs (applied db s))" "p_name p = ps_Name s"
    "pack_id_of (packs (applied db s)) (ps_Name s) = p_id p"
proof -
  obtain p where p: "find (\<lambda>p. p_name p = ps_Name s) (packs (applied db s)) = Some p"
    using find_name_Some[OF upsert_has_name] unfolding applied_packs by blast
  then have "pack_id_of (packs (applied db s)) (ps_Name s) = p_id p"
    by (simp add: pack_id_of_def)
  with find_Some_name[OF p] that show thesis by blast
qed

lemma applied_children:
  "scheduled_queries (applied db s) =
     filter (\<lambda>r. sq_pack_id r \<noteq> pack_id_of (packs (applied db s)) (ps_Name s)) (scheduled_queries db)
     @ map (scheduled_query_of (pack_id_of (packs (applied db s)) (ps_Name s))) (ps_Queries s)"
  "pack_targets (applied db s) =
     filter (\<lambda>r. pt_pack_id r \<noteq> pack_id_of (packs (applied db s)) (ps_Name s)) (pack_targets db)
     @ map (target_row_of (labels db) (pack_id_of (packs (applied db s)) (ps_Name s)))
         (Labels (ps_Targets s))"
  by (simp_all add: applied_def Let_def)

lemma holds_applied: "holds_spec (applied db s) s"
proof -
  obtain p where p: "p \<in> set (packs (applied db s))" "p_name p = ps_Name s"
    "pack_id_of (packs (applied db s)) (ps_Name s) = p_id p"
    by (rule applied_row)
  from p(1,2) have row: "p_description p = ps_Description s \<and> p_platform p = ps_Platform s \<and> \<not> p_deleted p"
    unfolding applied_packs by (rule upsert_row_named)
  have sq: "filter (\<lambda>r. sq_pack_id r = p_id p) (scheduled_queries (applied db s))
          = map (scheduled_query_of (p_id p)) (ps_Queries s)"
    unfolding applied_children p(3) by (rule filter_refill_same) (simp add: sq_pack_id_of)
  have pt: "filter (\<lambda>r. pt_pack_id r = p_id p) (pack_targets (applied db s))
          = map (target_row_of (labels (applied db s)) (p_id p)) (Labels (ps_Targets s))"
    unfolding applied_children p(3) applied_labels by (rule filter_refill_same) (simp add: pt_pack_id_of)
  show ?thesis unfolding holds_spec_def using p(1,2) row sq pt by blast
qed

lemma distinct_map_eq:
  "distinct (map f xs) \<Longrightarrow> x \<in> set xs \<Longrightarrow> y \<in> set xs \<Longrightarrow> f x = f y \<Longrightarrow> x = y"
  by (meson distinct_map inj_onD)

lemma applied_frame:
  assumes k: "pack_keys db"
    and p: "p \<in> set (packs (applied db t))" and n: "p_name p \<noteq> ps_Name t"
  shows "p \<in> set (packs db)"
    and "filter (\<lambda>r. sq_pack_id r = p_id p) (scheduled_queries (applied db t))
           = filter (\<lambda>r. sq_pack_id r = p_id p) (scheduled_queries db)"
    and "filter (\<lambda>r. pt_pack_id r = p_id p) (pack_targets (applied db t))
           = filter (\<lambda>r. pt_pack_id r = p_id p) (pack_targets db)"
proof -
  show "p \<in> set (packs db)"
    using p n unfolding applied_packs by (simp add: upsert_row_other)
  obtain pt where pt: "pt \<in> set (packs (applied db t))" "p_name pt = ps_Name t"
    "pack_id_of (packs (applied db t)) (ps_Name t) = p_id pt"
    by (rule applied_row)
  have "distinct (map p_id (packs (applied db t)))"
    using pack_keys_applied[OF k] by (simp add: pack_keys_def)
  from distinct_map_eq[OF this p pt(1)] n pt(2) have ne: "p_id p \<noteq> p_id pt" by auto
  show "filter (\<lambda>r. sq_pack_id r = p_id p) (scheduled_queries (applied db t))
           = filter (\<lambda>r. sq_pack_id r = p_id p) (scheduled_queries db)"
    unfolding applied_children pt(3) using ne
    by (intro filter_refill_other) (simp_all add: sq_pack_id_of)
  show "filter (\<lambda>r. pt_pack_id r = p_id p) (pack_targets (applied db t))
           = filter (\<lambda>r. pt_pack_id r = p_id p) (pack_targets db)"
    unfolding applied_children pt(3) using ne
    by (intro filter_refill_other) (simp_all add: pt_pack_id_of)
qed

lemma holds_preserved:
  assumes k: "pack_keys db" and h: "holds_spec db s" and n: "ps_Name t \<noteq> ps_Name s"
  shows "holds_spec (applied db t) s"
proof -
  from h obtain p where p: "p \<in> set (packs db)" "p_name p = ps_Name s"
    "p_description p = ps_Description s" "p_platform p = ps_Platform s" "\<not> p_deleted p"
    "filter (\<lambda>r. sq_pack_id r = p_id p) (scheduled_queries db)
          = map (scheduled_query_of (p_id p)) (ps_Queries s)"
    "filter (\<lambda>r. pt_pack_id r = p_id p) (pack_targets db)
          = map (target_row_of (labels db) (p_id p)) (Labels (ps_Targets s))"
    unfolding holds_spec_def by blast
  from p(1,2) n have p': "p \<in> set (packs (applied db t))"
    unfolding applied_packs by (simp add: upsert_row_other)
  from p(2) n have n': "p_name p \<noteq> ps_Name t" by simp
  note f = applied_frame(2,3)[OF k p' n']
  show ?thesis
    unfolding holds_spec_def using p' p(2-7) f by (auto simp: applied_labels)
qed

lemma holds_preserved_foldl:
  "pack_keys db \<Longrightarrow> holds_spec db s \<Longrightarrow> \<forall>t \<in> set post. ps_Name t \<noteq> ps_Name s \<Longrightarrow>
   holds_spec (foldl applied db post) s"
proof (induction post arbitrary: db)
  case Nil
  then show ?case by simp
next
  case (Cons t post)
  have 1: "holds_spec (applied db t) s"
    using Cons.prems by (intro holds_preserved) auto
  have 2: "pack_keys (applied db t)"
    using Cons.prems(1) by (rule pack_keys_applied)
  have 3: "\<forall>t \<in> set post. ps_Name t \<noteq> ps_Name s"
    using Cons.prems(3) by simp
  from Cons.IH[OF 2 1 3] show ?case by simp
qed

lemma holds_last:
  assumes "pack_keys db" and "specs = pre @ s # post" and "ps_Name s \<notin> ps_Name ` set post"
  shows "holds_spec (foldl applied db specs) s"
proof -
  let ?d = "applied (foldl applied db pre) s"
  have "pack_keys ?d" using assms(1) by (simp add: pack_keys_foldl pack_keys_applied)
  moreover have "holds_spec ?d s" by (rule holds_applied)
  moreover have "\<forall>t \<in> set post. ps_Name t \<noteq> ps_Name s" using assms(3) by (metis image_eqI)
  ultimately have "holds_spec (foldl applied ?d post) s" by (rule holds_preserved_foldl)
  then show ?thesis by (simp add: assms(2))
qed

lemma concat_map_Nil: "(\<And>x. x \<in> set xs \<Longrightarrow> f x = []) \<Longrightarrow> concat (map f xs) = []"
  by (induction xs) simp_all

lemma no_explicit_rows:
  fixes hs :: "host_row list" and pts :: "pack_target_row list"
  assumes "\<forall>pt \<in> set pts. pt_pack_id pt = pid \<longrightarrow> pt_type pt \<noteq> TargetHost"
  shows "[h_id h. h \<leftarrow> hs, pt \<leftarrow> pts,
            pt_target_id pt = Some (h_id h) \<and> pt_type pt = TargetHost, pt_pack_id pt = pid] = []"
proof (rule concat_map_Nil, rule concat_map_Nil)
  fix h :: host_row and pt
  assume "h \<in> set hs" and "pt \<in> set pts"
  with assms have "pt_pack_id pt = pid \<longrightarrow> pt_type pt \<noteq> TargetHost" by blast
  then show "(if pt_target_id pt = Some (h_id h) \<and> pt_type pt = TargetHost
              then if pt_pack_id pt = pid then [h_id h] else [] else []) = []"
    by simp
qed

text \<open>Claim C10. On a store whose pack ids and pack names are unique, after a
  successful \<open>ApplyPackSpecs\<close> (under any fault pattern) the pack named by a spec
  \<open>s\<close> of the batch, \<open>s\<close> being the last spec of the batch with that name, has as its
  target rows exactly one row of kind Label per entry of \<open>Targets.Labels\<close> of \<open>s\<close>, in
  that order (\<open>target_id\<close> the label's id, or \<open>NULL\<close> if no label has the name):
  whatever targets the pack had before, of kind Host included, are gone, and
  \<open>ListExplicitHostsInPack\<close> on that pack has no row to return.\<close>

theorem apply_leaves_label_targets_only:
  assumes "pack_keys db"
    and "ApplyPackSpecs F db specs = (None, db')"
    and "specs = pre @ s # post" and "ps_Name s \<notin> ps_Name ` set post"
  shows "\<exists>p \<in> set (packs db'). p_name p = ps_Name s \<and>
           filter (\<lambda>r. pt_pack_id r = p_id p) (pack_targets db')
             = map (target_row_of (labels db') (p_id p)) (Labels (ps_Targets s)) \<and>
           (\<forall>r \<in> set (pack_targets db'). pt_pack_id r = p_id p \<longrightarrow> pt_type r = TargetLabel) \<and>
           (\<forall>opt. ListExplicitHostsInPack no_faults db' (p_id p) opt = Inr (opt []))"
proof -
  from assms(2) have "db' = foldl applied db specs"
    by (auto simp: ApplyPackSpecs_def split: if_splits sum.splits dest: apply_specs_Inr)
  with holds_last[OF assms(1,3,4)] have "holds_spec db' s" by simp
  then obtain p where p: "p \<in> set (packs db')" "p_name p = ps_Name s"
    "filter (\<lambda>r. pt_pack_id r = p_id p) (pack_targets db')
          = map (target_row_of (labels db') (p_id p)) (Labels (ps_Targets s))"
    unfolding holds_spec_def by blast
  have ty: "\<forall>r \<in> set (pack_targets db'). pt_pack_id r = p_id p \<longrightarrow> pt_type r = TargetLabel"
  proof (intro ballI impI)
    fix r assume "r \<in> set (pack_targets db')" "pt_pack_id r = p_id p"
    then have "r \<in> set (filter (\<lambda>r. pt_pack_id r = p_id p) (pack_targets db'))" by simp
    then show "pt_type r = TargetLabel"
      unfolding p(3) by (auto simp: target_row_of_def)
  qed
  then have "\<forall>r \<in> set (pack_targets db'). pt_pack_id r = p_id p \<longrightarrow> pt_type r \<noteq> TargetHost"
    by auto
  then have e: "[h_id h. h \<leftarrow> hosts db', pt \<leftarrow> pack_targets db',
            pt_target_id pt = Some (h_id h) \<and> pt_type pt = TargetHost, pt_pack_id pt = p_id p] = []"
    by (rule no_explicit_rows)
  have "\<forall>opt. ListExplicitHostsInPack no_faults db' (p_id p) opt = Inr (opt [])"
    unfolding ListExplicitHostsInPack_nf e by simp
  with p ty show ?thesis by blast
qed

theorem apply_leaves_label_targets_only_witness:
  "ListExplicitHostsInPack no_faults legacy_store 1 all_rows = Inr [2] \<and>
   (\<exists>db'. ApplyPackSpecs no_faults legacy_store [spec_legacy] = (None, db') \<and>
      (\<exists>p \<in> set (packs db'). p_name p = ''legacy'' \<and> p_id p = 1 \<and>
           filter (\<lambda>r. pt_pack_id r = p_id p) (pack_targets db')
             = [\<lparr>pt_pack_id = 1, pt_type = TargetLabel, pt_target_id = Some 1\<rparr>] \<and>
           ListExplicitHostsInPack no_faults db' (p_id p) all_rows = Inr []))"
proof -
  let ?db' = "applied legacy_store spec_legacy"
  have k: "pack_keys legacy_store"
    by (simp add: pack_keys_def example_defs)
  have ok: "spec_ok legacy_store spec_legacy"
    by (simp add: spec_ok_def example_defs)
  have a: "ApplyPackSpecs no_faults legacy_store [spec_legacy] = (None, ?db')"
    by (simp add: ApplyPackSpecs_nf applyPackSpec_no_faults[OF ok])
  have d: "[spec_legacy] = [] @ spec_legacy # []" by simp
  have n: "ps_Name spec_legacy \<notin> ps_Name ` set []" by simp
  from apply_leaves_label_targets_only[OF k a d n] obtain p where
    p: "p \<in> set (packs ?db')" "p_name p = ps_Name spec_legacy"
       "filter (\<lambda>r. pt_pack_id r = p_id p) (pack_targets ?db')
             = map (target_row_of (labels ?db') (p_id p)) (Labels (ps_Targets spec_legacy))"
       "\<forall>opt. ListExplicitHostsInPack no_faults ?db' (p_id p) opt = Inr (opt [])"
    by blast
  from p(1) have i: "p_id p = 1"
    by (auto simp: applied_packs upsert_pack_rows_def example_defs)
  have t: "map (target_row_of (labels ?db') (p_id p)) (Labels (ps_Targets spec_legacy))
             = [\<lparr>pt_pack_id = 1, pt_type = TargetLabel, pt_target_id = Some 1\<rparr>]"
    by (simp add: i applied_labels target_row_of_def label_id_subquery_def example_defs)
  have e: "ListExplicitHostsInPack no_faults legacy_store 1 all_rows = Inr [2]"
    by (simp add: ListExplicitHostsInPack_nf all_rows_def example_defs)
  from p(4) have "ListExplicitHostsInPack no_faults ?db' (p_id p) all_rows = Inr []"
    by (simp add: all_rows_def)
  with a e p(1,2,3) i t show ?thesis
    by (auto simp: spec_legacy_def)
qed

section \<open>Reading a batch back\<close>

lemmas eval_defs = applyPackSpec_def nf_simps upsert_pack_rows_def next_pack_id_def
  label_id_subquery_def scheduled_query_of_def isChildForeignKeyError_def
  GetPackSpecs_nf read_spec_def select_target_labels_def select_pack_queries_def
  spec_query_of_def

lemma spec_ok_applied: "spec_ok (applied db t) s = spec_ok db s"
  by (simp add: spec_ok_def applied_queries applied_labels)

lemma apply_specs_no_faults:
  "\<forall>s \<in> set specs. spec_ok db s \<Longrightarrow>
   apply_specs no_faults db specs = Inr (foldl applied db specs)"
proof (induction specs arbitrary: db)
  case Nil
  then show ?case by simp
next
  case (Cons t specs)
  have "\<forall>s \<in> set specs. spec_ok (applied db t) s"
    using Cons.prems by (simp add: spec_ok_applied)
  from Cons.IH[OF this] Cons.prems show ?case
    by (simp add: applyPackSpec_no_faults)
qed

lemma foldl_applied_labels: "labels (foldl applied db specs) = labels db"
  by (induction specs arbitrary: db) (simp_all add: applied_labels)

lemma distinct_filter_eq:
  "distinct (map f xs) \<Longrightarrow> x \<in> set xs \<Longrightarrow> filter (\<lambda>y. f y = f x) xs = [x]"
proof (induction xs)
  case Nil
  then show ?case by simp
next
  case (Cons a xs)
  show ?case
  proof (cases "a = x")
    case True
    with Cons.prems(1) have "filter (\<lambda>y. f y = f x) xs = []"
      by (auto simp: filter_empty_conv image_iff)
    with True show ?thesis by simp
  next
    case False
    with Cons.prems have x: "x \<in> set xs" and "f a \<noteq> f x" by auto
    with Cons.IH Cons.prems(1) show ?thesis by simp
  qed
qed

lemma spec_query_round: "spec_query_of (scheduled_query_of pid q) = q"
  by (simp add: spec_query_of_def scheduled_query_of_def)

lemma select_pack_queries_holds:
  "filter (\<lambda>r. sq_pack_id r = pid) (scheduled_queries db) = map (scheduled_query_of pid) qs \<Longrightarrow>
   select_pack_queries db pid = qs"
  by (simp add: select_pack_queries_def comp_def spec_query_round)

lemma concat_if_filter:
  "concat (map (\<lambda>x. if P x \<and> Q x then [g x] else []) xs)
     = concat (map (\<lambda>x. if Q x then [g x] else []) (filter P xs))"
  by (induction xs) simp_all

lemma select_target_labels_filter:
  "select_target_labels db pid ty =
     concat (map (\<lambda>l. concat (map (\<lambda>pt. if pt_type pt = ty \<and> pt_target_id pt = Some (l_id l)
                                         then [l_name l] else [])
                                 (filter (\<lambda>r. pt_pack_id r = pid) (pack_targets db))))
                 (labels db))"
proof -
  have "concat (map (\<lambda>pt. if pt_pack_id pt = pid \<and> pt_type pt = ty \<and> pt_target_id pt = Some (l_id l)
                         then [l_name l] else []) pts)
        = concat (map (\<lambda>pt. if pt_type pt = ty \<and> pt_target_id pt = Some (l_id l)
                         then [l_name l] else []) (filter (\<lambda>r. pt_pack_id r = pid) pts))"
    for l :: label_row and pts :: "pack_target_row list"
    by (rule concat_if_filter)
  then show ?thesis by (simp add: select_target_labels_def)
qed

lemma label_id_subquery_unique:
  assumes "distinct (map l_name ls)" and "l \<in> set ls"
  shows "label_id_subquery ls (l_name l) = Inr (Some (l_id l))"
  using distinct_filter_eq[OF assms] by (simp add: label_id_subquery_def)

lemma target_matches_label:
  assumes d: "distinct (map l_id ls)" "distinct (map l_name ls)"
    and l: "l \<in> set ls" and nm: "nm \<in> set (map l_name ls)"
  shows "pt_target_id (target_row_of ls pid nm) = Some (l_id l) \<longleftrightarrow> nm = l_name l"
proof -
  from nm obtain l' where l': "l' \<in> set ls" "nm = l_name l'" by auto
  have t: "pt_target_id (target_row_of ls pid nm) = Some (l_id l')"
    using label_id_subquery_unique[OF d(2) l'(1)] l'(2) by (simp add: target_row_of_def)
  show ?thesis
  proof
    assume "pt_target_id (target_row_of ls pid nm) = Some (l_id l)"
    with t have "l_id l' = l_id l" by simp
    with d(1) l l'(1) have "l' = l" by (meson distinct_map inj_onD)
    with l'(2) show "nm = l_name l" by simp
  next
    assume "nm = l_name l"
    with l'(2) d(2) l l'(1) have "l' = l" by (metis distinct_map inj_onD)
    with t show "pt_target_id (target_row_of ls pid nm) = Some (l_id l)" by simp
  qed
qed

lemma concat_if_eq_filter:
  "concat (map (\<lambda>x. if x = v then [v] else []) xs) = filter (\<lambda>x. x = v) xs"
  by (induction xs) simp_all

lemma select_target_labels_holds:
  assumes k: "label_keys db"
    and f: "filter (\<lambda>r. pt_pack_id r = pid) (pack_targets db)
              = map (target_row_of (labels db) pid) Ls"
    and e: "\<forall>nm \<in> set Ls. nm \<in> set (map l_name (labels db))"
  shows "select_target_labels db pid TargetLabel
           = concat (map (\<lambda>l. filter (\<lambda>nm. nm = l_name l) Ls) (labels db))"
proof -
  from k have d: "distinct (map l_id (labels db))" "distinct (map l_name (labels db))"
    by (simp_all add: label_keys_def)
  have inner: "concat (map (\<lambda>pt. if pt_type pt = TargetLabel \<and> pt_target_id pt = Some (l_id l)
                                  then [l_name l] else [])
                           (map (target_row_of (labels db) pid) Ls))
               = filter (\<lambda>nm. nm = l_name l) Ls" if l: "l \<in> set (labels db)" for l
  proof -
    have "(\<lambda>nm. if pt_type (target_row_of (labels db) pid nm) = TargetLabel
                   \<and> pt_target_id (target_row_of (labels db) pid nm) = Some (l_id l)
                then [l_name l] else []) x
          = (\<lambda>nm. if nm = l_name l then [l_name l] else []) x" if "x \<in> set Ls" for x
      using target_matches_label[OF d l, of x pid] e that
      by (simp add: target_row_of_def)
    then have m: "map (\<lambda>nm. if pt_type (target_row_of (labels db) pid nm) = TargetLabel
                   \<and> pt_target_id (target_row_of (labels db) pid nm) = Some (l_id l)
                then [l_name l] else []) Ls
          = map (\<lambda>nm. if nm = l_name l then [l_name l] else []) Ls"
      by (intro map_cong) simp_all
    show ?thesis
      unfolding map_map comp_def m by (rule concat_if_eq_filter)
  qed
  show ?thesis
    unfolding select_target_labels_filter f
  proof (intro arg_cong[where f = concat] map_cong refl)
    fix l assume "l \<in> set (labels db)"
    then show "concat (map (\<lambda>pt. if pt_type pt = TargetLabel \<and> pt_target_id pt = Some (l_id l)
                                  then [l_name l] else [])
                           (map (target_row_of (labels db) pid) Ls))
               = filter (\<lambda>nm. nm = l_name l) Ls"
      by (rule inner)
  qed
qed

lemma mset_concat_filter:
  "distinct (map f ls) \<Longrightarrow>
   mset (concat (map (\<lambda>l. filter (\<lambda>nm. nm = f l) Ls) ls))
     = filter_mset (\<lambda>nm. nm \<in> f ` set ls) (mset Ls)"
proof (induction ls)
  case Nil
  then show ?case by simp
next
  case (Cons l ls)
  then have n: "f l \<notin> f ` set ls" and d: "distinct (map f ls)" by auto
  have "filter_mset (\<lambda>nm. nm = f l) (mset Ls) + filter_mset (\<lambda>nm. nm \<in> f ` set ls) (mset Ls)
        = filter_mset (\<lambda>nm. nm \<in> f ` set (l # ls)) (mset Ls)"
    using n by (intro multiset_eqI) auto
  with Cons.IH[OF d] show ?case by simp
qed

lemma mset_labels_round:
  assumes "distinct (map l_name ls)" and "\<forall>nm \<in> set Ls. nm \<in> set (map l_name ls)"
  shows "mset (concat (map (\<lambda>l. filter (\<lambda>nm. nm = l_name l) Ls) ls)) = mset Ls"
proof -
  have "filter_mset (\<lambda>nm. nm \<in> l_name ` set ls) (mset Ls) = mset Ls"
    using assms(2) by (intro multiset_eqI) auto
  with mset_concat_filter[OF assms(1), of Ls] show ?thesis by simp
qed

lemma foldl_frame:
  "pack_keys db \<Longrightarrow> p \<in> set (packs (foldl applied db specs)) \<Longrightarrow>
   p_name p \<notin> ps_Name ` set specs \<Longrightarrow>
   p \<in> set (packs db) \<and>
   filter (\<lambda>r. sq_pack_id r = p_id p) (scheduled_queries (foldl applied db specs))
     = filter (\<lambda>r. sq_pack_id r = p_id p) (scheduled_queries db) \<and>
   filter (\<lambda>r. pt_pack_id r = p_id p) (pack_targets (foldl applied db specs))
     = filter (\<lambda>r. pt_pack_id r = p_id p) (pack_targets db)"
proof (induction specs arbitrary: db)
  case Nil
  then show ?case by simp
next
  case (Cons t specs)
  have k: "pack_keys (applied db t)" using Cons.prems(1) by (rule pack_keys_applied)
  have p: "p \<in> set (packs (foldl applied (applied db t) specs))" using Cons.prems(2) by simp
  have n: "p_name p \<notin> ps_Name ` set specs" and nt: "p_name p \<noteq> ps_Name t"
    using Cons.prems(3) by auto
  from Cons.IH[OF k p n] have
    1: "p \<in> set (packs (applied db t))" and
    2: "filter (\<lambda>r. sq_pack_id r = p_id p) (scheduled_queries (foldl applied (applied db t) specs))
     = filter (\<lambda>r. sq_pack_id r = p_id p) (scheduled_queries (applied db t))" and
    3: "filter (\<lambda>r. pt_pack_id r = p_id p) (pack_targets (foldl applied (applied db t) specs))
     = filter (\<lambda>r. pt_pack_id r = p_id p) (pack_targets (applied db t))"
    by blast+
  from applied_frame[OF Cons.prems(1) 1 nt] 2 3 show ?case by simp
qed

lemma read_spec_cong:
  assumes "labels db' = labels db"
    and "filter (\<lambda>r. sq_pack_id r = p_id p) (scheduled_queries db')
           = filter (\<lambda>r. sq_pack_id r = p_id p) (scheduled_queries db)"
    and "filter (\<lambda>r. pt_pack_id r = p_id p) (pack_targets db')
           = filter (\<lambda>r. pt_pack_id r = p_id p) (pack_targets db)"
  shows "read_spec db' p = read_spec db p"
  by (simp add: read_spec_def select_target_labels_filter select_pack_queries_def assms)

lemma read_spec_name: "ps_Name (read_spec db p) = p_name p"
  by (simp add: read_spec_def)

lemma read_back_of_held_spec:
  assumes k: "pack_keys db" and lk: "label_keys db"
    and h: "holds_spec db s"
    and e: "\<forall>nm \<in> set (Labels (ps_Targets s)). nm \<in> set (map l_name (labels db))"
  shows "\<exists>r. filter (\<lambda>r. ps_Name r = ps_Name s) (map (read_spec db) (packs db)) = [r] \<and>
             same_spec r s \<and>
             (\<exists>p \<in> set (packs db). p_name p = ps_Name s \<and> ps_ID r = p_id p)"
proof -
  from h obtain p where p: "p \<in> set (packs db)" "p_name p = ps_Name s"
    "p_description p = ps_Description s" "p_platform p = ps_Platform s"
    "filter (\<lambda>r. sq_pack_id r = p_id p) (scheduled_queries db)
          = map (scheduled_query_of (p_id p)) (ps_Queries s)"
    "filter (\<lambda>r. pt_pack_id r = p_id p) (pack_targets db)
          = map (target_row_of (labels db) (p_id p)) (Labels (ps_Targets s))"
    unfolding holds_spec_def by blast
  from k have dn: "distinct (map p_name (packs db))" by (simp add: pack_keys_def)
  have "filter (\<lambda>r. ps_Name r = ps_Name s) (map (read_spec db) (packs db))
          = map (read_spec db) (filter (\<lambda>q. p_name q = p_name p) (packs db))"
    by (simp add: filter_map comp_def read_spec_name p(2))
  also have "\<dots> = [read_spec db p]"
    by (simp add: distinct_filter_eq[OF dn p(1)])
  finally have one: "filter (\<lambda>r. ps_Name r = ps_Name s) (map (read_spec db) (packs db))
                       = [read_spec db p]" .
  have q: "ps_Queries (read_spec db p) = ps_Queries s"
    using select_pack_queries_holds[OF p(5)] by (simp add: read_spec_def)
  have l: "Labels (ps_Targets (read_spec db p))
             = concat (map (\<lambda>l. filter (\<lambda>nm. nm = l_name l) (Labels (ps_Targets s))) (labels db))"
    using select_target_labels_holds[OF lk p(6) e] by (simp add: read_spec_def)
  from lk have "distinct (map l_name (labels db))" by (simp add: label_keys_def)
  from mset_labels_round[OF this e] l
  have m: "mset (Labels (ps_Targets (read_spec db p))) = mset (Labels (ps_Targets s))" by simp
  have "same_spec (read_spec db p) s"
    unfolding same_spec_def using p(2,3,4) q m by (simp add: read_spec_def)
  moreover have "ps_ID (read_spec db p) = p_id p" by (simp add: read_spec_def)
  ultimately show ?thesis using one p(1,2) by blast
qed

lemma upsert_pairs:
  "map (\<lambda>p. (p_name p, p_id p)) (upsert_pack_rows ps n d pl) =
     (if n \<in> set (map p_name ps) then map (\<lambda>p. (p_name p, p_id p)) ps
      else map (\<lambda>p. (p_name p, p_id p)) ps @ [(n, next_pack_id ps)])"
  by (induction ps) (auto simp: upsert_pack_rows_def)

lemma foldl_applied_pairs_mono:
  "set (map (\<lambda>p. (p_name p, p_id p)) (packs db))
     \<subseteq> set (map (\<lambda>p. (p_name p, p_id p)) (packs (foldl applied db specs)))"
proof (induction specs arbitrary: db)
  case Nil
  then show ?case by simp
next
  case (Cons s specs)
  have "set (map (\<lambda>p. (p_name p, p_id p)) (packs db))
          \<subseteq> set (map (\<lambda>p. (p_name p, p_id p)) (packs (applied db s)))"
    unfolding applied_packs upsert_pairs by auto
  from this Cons.IH[of "applied db s"] show ?case
    unfolding foldl_Cons by (rule subset_trans)
qed

text \<open>The id of a pack row after a batch is the id the store has assigned to the name:
  the id the name had before the batch, or an id that no pack had before.\<close>

lemma assigned_pack_id:
  assumes k: "pack_keys (foldl applied db specs)"
    and p: "p \<in> set (packs (foldl applied db specs))"
  shows "(\<forall>p0 \<in> set (packs db). p_name p0 = p_name p \<longrightarrow> p_id p = p_id p0) \<and>
         (p_name p \<notin> p_name ` set (packs db) \<longrightarrow> p_id p \<notin> p_id ` set (packs db))"
proof -
  let ?d = "foldl applied db specs"
  from k have dn: "distinct (map p_name (packs ?d))" and di: "distinct (map p_id (packs ?d))"
    by (simp_all add: pack_keys_def)
  have kept: "\<exists>p' \<in> set (packs ?d). p_name p' = p_name p0 \<and> p_id p' = p_id p0"
    if "p0 \<in> set (packs db)" for p0
  proof -
    from that have "(p_name p0, p_id p0) \<in> set (map (\<lambda>p. (p_name p, p_id p)) (packs db))"
      by force
    with foldl_applied_pairs_mono[of db specs]
    have "(p_name p0, p_id p0) \<in> set (map (\<lambda>p. (p_name p, p_id p)) (packs ?d))" by blast
    then show ?thesis by auto
  qed
  show ?thesis
  proof (intro conjI ballI impI)
    fix p0 assume p0: "p0 \<in> set (packs db)" "p_name p0 = p_name p"
    from kept[OF p0(1)] obtain p' where
      p': "p' \<in> set (packs ?d)" "p_name p' = p_name p0" "p_id p' = p_id p0" by blast
    from distinct_map_eq[OF dn p'(1) p] p'(2) p0(2) have "p' = p" by simp
    with p'(3) show "p_id p = p_id p0" by simp
  next
    assume n: "p_name p \<notin> p_name ` set (packs db)"
    show "p_id p \<notin> p_id ` set (packs db)"
    proof
      assume "p_id p \<in> p_id ` set (packs db)"
      then obtain p0 where p0: "p0 \<in> set (packs db)" "p_id p = p_id p0" by auto
      from kept[OF p0(1)] obtain p' where
        p': "p' \<in> set (packs ?d)" "p_name p' = p_name p0" "p_id p' = p_id p0" by blast
      from distinct_map_eq[OF di p'(1) p] p'(3) p0(2) have "p' = p" by simp
      with p'(2) p0(1) n show False by auto
    qed
  qed
qed

text \<open>What \<open>GetPackSpecs\<close> reads from the state that a batch leaves.\<close>

lemma read_back_after_batch:
  assumes k: "pack_keys db" and lk: "label_keys db"
    and d: "distinct (map ps_Name specs)"
    and e: "\<forall>s \<in> set specs. \<forall>l \<in> set (Labels (ps_Targets s)). l \<in> set (map l_name (labels db))"
  shows "(\<forall>s \<in> set specs. \<exists>r.
            filter (\<lambda>r. ps_Name r = ps_Name s)
              (map (read_spec (foldl applied db specs)) (packs (foldl applied db specs))) = [r] \<and>
            same_spec r s \<and>
            (\<exists>p \<in> set (packs (foldl applied db specs)). p_name p = ps_Name s \<and> ps_ID r = p_id p) \<and>
            (\<forall>p0 \<in> set (packs db). p_name p0 = ps_Name s \<longrightarrow> ps_ID r = p_id p0) \<and>
            (ps_Name s \<notin> p_name ` set (packs db) \<longrightarrow> ps_ID r \<notin> p_id ` set (packs db))) \<and>
         (\<forall>r \<in> set (map (read_spec (foldl applied db specs)) (packs (foldl applied db specs))).
            ps_Name r \<notin> ps_Name ` set specs \<longrightarrow> r \<in> set (map (read_spec db) (packs db)))"
proof (intro conjI ballI impI)
  let ?db' = "foldl applied db specs"
  have k': "pack_keys ?db'" using k by (rule pack_keys_foldl)
  have lab: "labels ?db' = labels db" by (rule foldl_applied_labels)
  have lk': "label_keys ?db'" using lk by (simp add: label_keys_def lab)
  {
    fix s assume s: "s \<in> set specs"
    from s obtain pre post where sp: "specs = pre @ s # post" by (meson split_list)
    with d have "ps_Name s \<notin> ps_Name ` set post" by auto
    from holds_last[OF k sp this] have h: "holds_spec ?db' s" .
    have el: "\<forall>nm \<in> set (Labels (ps_Targets s)). nm \<in> set (map l_name (labels ?db'))"
      using e s by (simp add: lab)
    from read_back_of_held_spec[OF k' lk' h el] obtain r p where
      r: "filter (\<lambda>r. ps_Name r = ps_Name s) (map (read_spec ?db') (packs ?db')) = [r]"
         "same_spec r s" "p \<in> set (packs ?db')" "p_name p = ps_Name s" "ps_ID r = p_id p"
      by blast
    from assigned_pack_id[OF k' r(3)] r(4,5) have
      "(\<forall>p0 \<in> set (packs db). p_name p0 = ps_Name s \<longrightarrow> ps_ID r = p_id p0) \<and>
       (ps_Name s \<notin> p_name ` set (packs db) \<longrightarrow> ps_ID r \<notin> p_id ` set (packs db))"
      by simp
    with r show "\<exists>r.
            filter (\<lambda>r. ps_Name r = ps_Name s) (map (read_spec ?db') (packs ?db')) = [r] \<and>
            same_spec r s \<and>
            (\<exists>p \<in> set (packs ?db'). p_name p = ps_Name s \<and> ps_ID r = p_id p) \<and>
            (\<forall>p0 \<in> set (packs db). p_name p0 = ps_Name s \<longrightarrow> ps_ID r = p_id p0) \<and>
            (ps_Name s \<notin> p_name ` set (packs db) \<longrightarrow> ps_ID r \<notin> p_id ` set (packs db))"
      by blast
  }
  {
    fix r assume r: "r \<in> set (map (read_spec ?db') (packs ?db'))"
      and n: "ps_Name r \<notin> ps_Name ` set specs"
    from r obtain p where p: "p \<in> set (packs ?db')" "r = read_spec ?db' p" by auto
    with n have "p_name p \<notin> ps_Name ` set specs" by (simp add: read_spec_name)
    from foldl_frame[OF k p(1) this] have
      f: "p \<in> set (packs db)"
         "filter (\<lambda>r. sq_pack_id r = p_id p) (scheduled_queries ?db')
            = filter (\<lambda>r. sq_pack_id r = p_id p) (scheduled_queries db)"
         "filter (\<lambda>r. pt_pack_id r = p_id p) (pack_targets ?db')
            = filter (\<lambda>r. pt_pack_id r = p_id p) (pack_targets db)"
      by blast+
    from read_spec_cong[OF lab f(2,3)] p(2) have "r = read_spec db p" by simp
    with f(1) show "r \<in> set (map (read_spec db) (packs db))" by simp
  }
qed

text \<open>Claim C2, as amended. On a store without failures of its own whose pack and label
  keys are unique, for a batch with pairwise distinct pack names whose scheduled queries
  name existing queries and whose target labels name existing labels: \<open>ApplyPackSpecs\<close>
  returns \<open>nil\<close>, and \<open>GetPackSpecs\<close> then returns, for each spec of the batch,
  exactly one entry with that name. The entry has the spec's description and platform,
  its scheduled queries in the submitted order, and its target labels as a multiset. Its
  \<open>ID\<close> is the id of the pack row of that name: the id the name had in the store
  before the call, or else an id that no pack of the store had. Every other entry returned
  is a pack the store had before, read back as it was read before the call.\<close>

theorem apply_then_get_round_trip:
  assumes k: "pack_keys db" and lk: "label_keys db"
    and d: "distinct (map ps_Name specs)"
    and w: "\<forall>s \<in> set specs.
              (\<forall>q \<in> set (ps_Queries s). psq_QueryName q \<in> set (map q_name (queries db))) \<and>
              (\<forall>l \<in> set (Labels (ps_Targets s)). l \<in> set (map l_name (labels db)))"
  shows "\<exists>db' rs. ApplyPackSpecs no_faults db specs = (None, db') \<and>
           GetPackSpecs no_faults db' = Inr rs \<and>
           (\<forall>s \<in> set specs. \<exists>r.
               filter (\<lambda>r. ps_Name r = ps_Name s) rs = [r] \<and> same_spec r s \<and>
               (\<exists>p \<in> set (packs db'). p_name p = ps_Name s \<and> ps_ID r = p_id p) \<and>
               (\<forall>p0 \<in> set (packs db). p_name p0 = ps_Name s \<longrightarrow> ps_ID r = p_id p0) \<and>
               (ps_Name s \<notin> p_name ` set (packs db) \<longrightarrow> ps_ID r \<notin> p_id ` set (packs db))) \<and>
           (\<forall>r \<in> set rs. ps_Name r \<notin> ps_Name ` set specs \<longrightarrow>
               (\<exists>rs0. GetPackSpecs no_faults db = Inr rs0 \<and> r \<in> set rs0))"
proof -
  let ?db' = "foldl applied db specs"
  let ?rs = "map (read_spec ?db') (packs ?db')"
  from lk have dl: "distinct (map l_name (labels db))" by (simp add: label_keys_def)
  have "\<forall>s \<in> set specs. spec_ok db s"
    using w dl by (auto intro!: spec_ok_I)
  then have a: "ApplyPackSpecs no_faults db specs = (None, ?db')"
    by (simp add: ApplyPackSpecs_nf apply_specs_no_faults)
  have g: "GetPackSpecs no_faults ?db' = Inr ?rs" by (rule GetPackSpecs_nf)
  have e: "\<forall>s \<in> set specs. \<forall>l \<in> set (Labels (ps_Targets s)). l \<in> set (map l_name (labels db))"
    using w by blast
  note rb = read_back_after_batch[OF k lk d e]
  have 2: "\<forall>r \<in> set ?rs. ps_Name r \<notin> ps_Name ` set specs \<longrightarrow>
               (\<exists>rs0. GetPackSpecs no_faults db = Inr rs0 \<and> r \<in> set rs0)"
    using rb[THEN conjunct2] by (simp only: GetPackSpecs_nf) blast
  show ?thesis
    by (rule exI[of _ ?db'], rule exI[of _ ?rs], intro conjI)
       (rule a, rule g, rule rb[THEN conjunct1], rule 2)
qed

theorem apply_then_get_round_trip_witness:
  "\<exists>db' rs r. ApplyPackSpecs no_faults base_store [spec_one] = (None, db') \<and>
      GetPackSpecs no_faults db' = Inr rs \<and>
      filter (\<lambda>r. ps_Name r = ''one'') rs = [r] \<and> same_spec r spec_one \<and> ps_ID r \<noteq> 1"
proof -
  have k: "pack_keys base_store" by (simp add: pack_keys_def base_store_def example_defs)
  have lk: "label_keys base_store" by (simp add: label_keys_def base_store_def example_defs)
  have d: "distinct (map ps_Name [spec_one])" by simp
  have w: "\<forall>s \<in> set [spec_one].
              (\<forall>q \<in> set (ps_Queries s). psq_QueryName q \<in> set (map q_name (queries base_store))) \<and>
              (\<forall>l \<in> set (Labels (ps_Targets s)). l \<in> set (map l_name (labels base_store)))"
    by (simp add: base_store_def example_defs)
  from apply_then_get_round_trip[OF k lk d w] obtain db' rs r where
    h: "ApplyPackSpecs no_faults base_store [spec_one] = (None, db')"
       "GetPackSpecs no_faults db' = Inr rs"
       "filter (\<lambda>r. ps_Name r = ps_Name spec_one) rs = [r]" "same_spec r spec_one"
       "ps_Name spec_one \<notin> p_name ` set (packs base_store)
          \<longrightarrow> ps_ID r \<notin> p_id ` set (packs base_store)"
    by auto
  have n: "ps_Name spec_one = ''one''" by (simp add: spec_one_def)
  from h(5) have i: "ps_ID r \<noteq> 1"
    by (simp add: n base_store_def fresh_store_def)
  from h(1-4) i show ?thesis unfolding n by blast
qed

text \<open>Claim C2 as stated fails: on \<open>base_store\<close> the batch \<open>[spec_one]\<close> is well formed
  and applied, and \<open>GetPackSpecs\<close> returns two specs: the pack \<open>base\<close> that was
  there, and the pack \<open>one\<close> with the id 2 where the input has the id 0. Two specs
  are no reordering of the one submitted.\<close>

theorem apply_then_get_round_trip_counterexample:
  "fst (ApplyPackSpecs no_faults base_store [spec_one]) = None \<and>
   GetPackSpecs no_faults (snd (ApplyPackSpecs no_faults base_store [spec_one]))
     = Inr [\<lparr>ps_ID = 1, ps_Name = ''base'', ps_Description = ''b'', ps_Platform = ''mac'',
             ps_Targets = \<lparr>Labels = []\<rparr>, ps_Queries = []\<rparr>,
            \<lparr>ps_ID = 2, ps_Name = ''one'', ps_Description = ''first'', ps_Platform = ''linux'',
             ps_Targets = \<lparr>Labels = [''linux'', ''mac'']\<rparr>, ps_Queries = [q_uptime, q_info]\<rparr>] \<and>
   mset [\<lparr>ps_ID = 1, ps_Name = ''base'', ps_Description = ''b'', ps_Platform = ''mac'',
             ps_Targets = \<lparr>Labels = []\<rparr>, ps_Queries = []\<rparr>,
            \<lparr>ps_ID = 2, ps_Name = ''one'', ps_Description = ''first'', ps_Platform = ''linux'',
             ps_Targets = \<lparr>Labels = [''linux'', ''mac'']\<rparr>, ps_Queries = [q_uptime, q_info]\<rparr>]
     \<noteq> mset [spec_one]"
proof -
  have a: "fst (ApplyPackSpecs no_faults base_store [spec_one]) = None"
    by (simp add: eval_defs base_store_def example_defs)
  have g: "GetPackSpecs no_faults (snd (ApplyPackSpecs no_faults base_store [spec_one]))
     = Inr [\<lparr>ps_ID = 1, ps_Name = ''base'', ps_Description = ''b'', ps_Platform = ''mac'',
             ps_Targets = \<lparr>Labels = []\<rparr>, ps_Queries = []\<rparr>,
            \<lparr>ps_ID = 2, ps_Name = ''one'', ps_Description = ''first'', ps_Platform = ''linux'',
             ps_Targets = \<lparr>Labels = [''linux'', ''mac'']\<rparr>, ps_Queries = [q_uptime, q_info]\<rparr>]"
    by (simp add: eval_defs base_store_def example_defs)
  have m: "mset [x1, x2] \<noteq> mset [y1]" for x1 x2 y1 :: PackSpec
  proof
    assume "mset [x1, x2] = mset [y1]"
    then have "size (mset [x1, x2]) = size (mset [y1])" by (rule arg_cong)
    then show False by simp
  qed
  from a g m show ?thesis by simp
qed

section \<open>Applying a batch twice\<close>

lemma refill_closed:
  "\<forall>(pid, new) \<in> set steps. \<forall>r \<in> set new. key r = pid \<Longrightarrow>
   refill key xs steps = filter (\<lambda>r. key r \<notin> fst ` set steps) xs @ refill_tail key steps"
proof (induction steps arbitrary: xs)
  case Nil
  then show ?case by simp
next
  case (Cons st steps)
  obtain pid new where st: "st = (pid, new)" by (cases st)
  from Cons.prems st have new: "\<forall>r \<in> set new. key r = pid"
    and rest: "\<forall>(pid, new) \<in> set steps. \<forall>r \<in> set new. key r = pid" by auto
  have "filter (\<lambda>r. key r \<notin> fst ` set steps) (filter (\<lambda>r. key r \<noteq> pid) xs)
          = filter (\<lambda>r. key r \<notin> fst ` set (st # steps)) xs"
    by (simp add: st)
  then show ?case
    using Cons.IH[OF rest, of "filter (\<lambda>r. key r \<noteq> pid) xs @ new"] by (simp add: st)
qed

lemma refill_tail_keys:
  "\<forall>(pid, new) \<in> set steps. \<forall>r \<in> set new. key r = pid \<Longrightarrow>
   \<forall>r \<in> set (refill_tail key steps). key r \<in> fst ` set steps"
  by (induction steps) force+

lemma refill_idem:
  assumes "\<forall>(pid, new) \<in> set steps. \<forall>r \<in> set new. key r = pid"
  shows "refill key (refill key xs steps) steps = refill key xs steps"
proof -
  have "filter (\<lambda>r. key r \<notin> fst ` set steps) (refill_tail key steps) = []"
    using refill_tail_keys[OF assms] by (simp add: filter_empty_conv)
  then show ?thesis by (simp add: refill_closed[OF assms])
qed

lemma upsert_spec_exists:
  "ps_Name s \<in> set (map p_name ps) \<Longrightarrow> upsert_spec ps s = map (upd s) ps"
  by (simp add: upsert_spec_def upsert_pack_rows_def upd_def)

lemma upd_name: "p_name (upd s p) = p_name p"
  by (simp add: upd_def)

lemma upd_shape:
  "\<exists>d pl b. upd s p = p\<lparr>p_description := d, p_platform := pl, p_deleted := b\<rparr>"
proof (cases "p_name p = ps_Name s")
  case True
  then have "upd s p = p\<lparr>p_description := ps_Description s, p_platform := ps_Platform s,
                         p_deleted := False\<rparr>"
    by (simp add: upd_def)
  then show ?thesis by blast
next
  case False
  then have "upd s p = p\<lparr>p_description := p_description p, p_platform := p_platform p,
                         p_deleted := p_deleted p\<rparr>"
    by (simp add: upd_def)
  then show ?thesis by blast
qed

lemma upd_all_shape:
  "\<exists>d pl b. foldl (\<lambda>p s. upd s p) p specs = p\<lparr>p_description := d, p_platform := pl, p_deleted := b\<rparr>"
proof (induction specs arbitrary: p)
  case Nil
  have "p = p\<lparr>p_description := p_description p, p_platform := p_platform p,
              p_deleted := p_deleted p\<rparr>" by simp
  then show ?case by (metis foldl_Nil)
next
  case (Cons s specs)
  obtain d pl b where 1: "upd s p = p\<lparr>p_description := d, p_platform := pl, p_deleted := b\<rparr>"
    using upd_shape by blast
  obtain d' pl' b' where
    2: "foldl (\<lambda>p s. upd s p) (upd s p) specs
          = (upd s p)\<lparr>p_description := d', p_platform := pl', p_deleted := b'\<rparr>"
    using Cons.IH by blast
  have "foldl (\<lambda>p s. upd s p) p (s # specs) = foldl (\<lambda>p s. upd s p) (upd s p) specs"
    by simp
  also have "\<dots> = (upd s p)\<lparr>p_description := d', p_platform := pl', p_deleted := b'\<rparr>"
    by (rule 2)
  also have "\<dots> = p\<lparr>p_description := d', p_platform := pl', p_deleted := b'\<rparr>"
    by (simp add: 1)
  finally show ?case by blast
qed

lemma upsert_all_exists:
  "set (map ps_Name specs) \<subseteq> set (map p_name qs) \<Longrightarrow>
   foldl upsert_spec qs specs = map (\<lambda>p. foldl (\<lambda>p s. upd s p) p specs) qs"
proof (induction specs arbitrary: qs)
  case Nil
  then show ?case by simp
next
  case (Cons s specs)
  from Cons.prems have e: "ps_Name s \<in> set (map p_name qs)" by simp
  have n: "map p_name (map (upd s) qs) = map p_name qs"
    by (simp add: comp_def upd_name)
  from Cons.prems have "set (map ps_Name specs) \<subseteq> set (map p_name (map (upd s) qs))"
    unfolding n by simp
  from Cons.IH[OF this] show ?case
    by (simp add: upsert_spec_exists[OF e] comp_def)
qed

lemma upsert_spec_names_mono:
  "set (map p_name ps) \<subseteq> set (map p_name (upsert_spec ps s))"
  by (auto simp: upsert_spec_def upsert_names)

lemma upsert_spec_has_name: "ps_Name s \<in> set (map p_name (upsert_spec ps s))"
  unfolding upsert_spec_def by (rule upsert_has_name)

lemma upsert_all_names_mono:
  "set (map p_name ps) \<subseteq> set (map p_name (foldl upsert_spec ps specs))"
proof (induction specs arbitrary: ps)
  case Nil
  then show ?case by simp
next
  case (Cons s specs)
  from upsert_spec_names_mono[of ps s] Cons.IH[of "upsert_spec ps s"]
  have "set (map p_name ps) \<subseteq> set (map p_name (foldl upsert_spec (upsert_spec ps s) specs))"
    by (rule subset_trans)
  then show ?case by simp
qed

lemma upsert_all_names_in:
  "set (map ps_Name specs) \<subseteq> set (map p_name (foldl upsert_spec ps specs))"
proof (induction specs arbitrary: ps)
  case Nil
  then show ?case by simp
next
  case (Cons s specs)
  have "ps_Name s \<in> set (map p_name (foldl upsert_spec (upsert_spec ps s) specs))"
    using upsert_spec_has_name[of s ps] upsert_all_names_mono[of "upsert_spec ps s" specs]
    by blast
  with Cons.IH[of "upsert_spec ps s"] show ?case by (simp del: set_map)
qed

lemma upsert_all_fixed:
  "\<forall>p \<in> set (foldl upsert_spec ps specs). foldl (\<lambda>p s. upd s p) p specs = p"
proof (induction specs rule: rev_induct)
  case Nil
  then show ?case by simp
next
  case (snoc s specs)
  let ?Q = "foldl upsert_spec ps specs"
  show ?case
  proof
    fix p assume p: "p \<in> set (foldl upsert_spec ps (specs @ [s]))"
    then have p': "p \<in> set (upsert_pack_rows ?Q (ps_Name s) (ps_Description s) (ps_Platform s))"
      by (simp add: upsert_spec_def)
    show "foldl (\<lambda>p s. upd s p) p (specs @ [s]) = p"
    proof (cases "p_name p = ps_Name s")
      case False
      with p' have "p \<in> set ?Q" by (simp add: upsert_row_other)
      with snoc.IH have "foldl (\<lambda>p s. upd s p) p specs = p" by blast
      with False show ?thesis by (simp add: upd_def)
    next
      case True
      from upsert_row_named[OF p' True]
      have r: "p_description p = ps_Description s" "p_platform p = ps_Platform s" "\<not> p_deleted p"
        by simp_all
      obtain d pl b where
        "foldl (\<lambda>p s. upd s p) p specs = p\<lparr>p_description := d, p_platform := pl, p_deleted := b\<rparr>"
        using upd_all_shape by blast
      with True r show ?thesis by (simp add: upd_def)
    qed
  qed
qed

lemma upsert_all_idem:
  "foldl upsert_spec (foldl upsert_spec ps specs) specs = foldl upsert_spec ps specs"
proof -
  have "foldl upsert_spec (foldl upsert_spec ps specs) specs
          = map (\<lambda>p. foldl (\<lambda>p s. upd s p) p specs) (foldl upsert_spec ps specs)"
    by (rule upsert_all_exists) (rule upsert_all_names_in)
  also have "\<dots> = foldl upsert_spec ps specs"
    using upsert_all_fixed by (intro map_idI) blast
  finally show ?thesis .
qed

lemma find_map_keep:
  "(\<And>p. P (f p) = P p) \<Longrightarrow> find P (map f ps) = map_option f (find P ps)"
  by (induction ps) simp_all

lemma find_append_left:
  "find P ps \<noteq> None \<Longrightarrow> find P (ps @ qs) = find P ps"
  by (induction ps) auto

lemma pack_id_of_upsert_stable:
  assumes "n \<in> set (map p_name ps)"
  shows "pack_id_of (upsert_spec ps s) n = pack_id_of ps n"
proof -
  from find_name_Some[OF assms] obtain p where p: "find (\<lambda>p. p_name p = n) ps = Some p"
    by blast
  show ?thesis
  proof (cases "ps_Name s \<in> set (map p_name ps)")
    case True
    have "find (\<lambda>p. p_name p = n) (map (upd s) ps) = map_option (upd s) (find (\<lambda>p. p_name p = n) ps)"
      by (rule find_map_keep) (simp add: upd_name)
    moreover have "p_id (upd s p) = p_id p" by (simp add: upd_def)
    ultimately show ?thesis
      using p by (simp add: upsert_spec_exists[OF True] pack_id_of_def)
  next
    case False
    then show ?thesis
      using p by (simp add: upsert_spec_def upsert_pack_rows_def pack_id_of_def find_append_left)
  qed
qed

lemma pack_id_of_upsert_all_stable:
  "n \<in> set (map p_name ps) \<Longrightarrow> pack_id_of (foldl upsert_spec ps specs) n = pack_id_of ps n"
proof (induction specs arbitrary: ps)
  case Nil
  then show ?case by simp
next
  case (Cons s specs)
  from Cons.prems upsert_spec_names_mono[of ps s]
  have "n \<in> set (map p_name (upsert_spec ps s))" by blast
  from Cons.IH[OF this] pack_id_of_upsert_stable[OF Cons.prems] show ?case by simp
qed

lemma steps_of_closed:
  "steps_of mk ps specs =
     map (\<lambda>s. (pack_id_of (foldl upsert_spec ps specs) (ps_Name s),
                mk (pack_id_of (foldl upsert_spec ps specs) (ps_Name s)) s)) specs"
proof (induction specs arbitrary: ps)
  case Nil
  then show ?case by simp
next
  case (Cons s specs)
  have "pack_id_of (foldl upsert_spec (upsert_spec ps s) specs) (ps_Name s)
          = pack_id_of (upsert_spec ps s) (ps_Name s)"
    by (rule pack_id_of_upsert_all_stable) (rule upsert_spec_has_name)
  with Cons.IH[of "upsert_spec ps s"] show ?case by simp
qed

lemma steps_of_again:
  "steps_of mk (foldl upsert_spec ps specs) specs = steps_of mk ps specs"
  by (simp add: steps_of_closed upsert_all_idem)

lemma steps_of_keys:
  "(\<And>pid s. \<forall>r \<in> set (mk pid s). key r = pid) \<Longrightarrow>
   \<forall>(pid, new) \<in> set (steps_of mk ps specs). \<forall>r \<in> set new. key r = pid"
  by (induction specs arbitrary: ps) simp_all

lemma foldl_applied_packs: "packs (foldl applied db specs) = foldl upsert_spec (packs db) specs"
  by (induction specs arbitrary: db) (simp_all add: applied_packs upsert_spec_def)

lemma foldl_applied_scheduled_queries:
  "scheduled_queries (foldl applied db specs) =
     refill sq_pack_id (scheduled_queries db)
       (steps_of (\<lambda>pid s. map (scheduled_query_of pid) (ps_Queries s)) (packs db) specs)"
proof (induction specs arbitrary: db)
  case Nil
  then show ?case by simp
next
  case (Cons s specs)
  show ?case
    by (simp add: Cons.IH[of "applied db s"])
       (simp add: applied_def Let_def upsert_spec_def)
qed

lemma foldl_applied_pack_targets:
  "pack_targets (foldl applied db specs) =
     refill pt_pack_id (pack_targets db)
       (steps_of (\<lambda>pid s. map (target_row_of (labels db) pid) (Labels (ps_Targets s)))
          (packs db) specs)"
proof (induction specs arbitrary: db)
  case Nil
  then show ?case by simp
next
  case (Cons s specs)
  show ?case
    by (simp add: Cons.IH[of "applied db s"])
       (simp add: applied_def Let_def upsert_spec_def)
qed

lemma foldl_applied_rest:
  "queries (foldl applied db specs) = queries db"
  "hosts (foldl applied db specs) = hosts db"
  "label_query_executions (foldl applied db specs) = label_query_executions db"
  "datastore.more (foldl applied db specs) = datastore.more db"
  by (induction specs arbitrary: db) (simp_all add: applied_def Let_def)

lemma foldl_applied_idem:
  "foldl applied (foldl applied db specs) specs = foldl applied db specs"
proof (rule datastore.equality)
  let ?d = "foldl applied db specs"
  show "packs (foldl applied ?d specs) = packs ?d"
    by (simp add: foldl_applied_packs upsert_all_idem)
  have "scheduled_queries (foldl applied ?d specs)
          = refill sq_pack_id (scheduled_queries ?d)
              (steps_of (\<lambda>pid s. map (scheduled_query_of pid) (ps_Queries s)) (packs db) specs)"
    by (simp add: foldl_applied_scheduled_queries[of ?d] foldl_applied_packs steps_of_again)
  also have "\<dots> = scheduled_queries ?d"
    unfolding foldl_applied_scheduled_queries[of db]
    by (rule refill_idem, rule steps_of_keys) (simp add: sq_pack_id_of)
  finally show "scheduled_queries (foldl applied ?d specs) = scheduled_queries ?d" .
  have "pack_targets (foldl applied ?d specs)
          = refill pt_pack_id (pack_targets ?d)
              (steps_of (\<lambda>pid s. map (target_row_of (labels db) pid) (Labels (ps_Targets s)))
                 (packs db) specs)"
    by (simp add: foldl_applied_pack_targets[of ?d] foldl_applied_packs steps_of_again
        foldl_applied_labels)
  also have "\<dots> = pack_targets ?d"
    unfolding foldl_applied_pack_targets[of db]
    by (rule refill_idem, rule steps_of_keys) (simp add: pt_pack_id_of)
  finally show "pack_targets (foldl applied ?d specs) = pack_targets ?d" .
qed (simp_all add: foldl_applied_rest foldl_applied_labels)

lemma insert_scheduled_queries_Inr_known:
  "insert_scheduled_queries F db packID qs = Inr db' \<Longrightarrow>
   \<forall>q \<in> set qs. psq_QueryName q \<in> set (map q_name (queries db))"
proof (induction qs arbitrary: db)
  case Nil
  then show ?case by simp
next
  case (Cons q qs)
  from Cons.prems obtain db1 where
    s1: "exec_insert_scheduled_query F db packID q = Inr db1" and
    s2: "insert_scheduled_queries F db1 packID qs = Inr db'"
    by (auto split: sum.splits if_splits)
  from s1 have k: "psq_QueryName q \<in> set (map q_name (queries db))" and q: "queries db1 = queries db"
    by (auto simp: exec_insert_scheduled_query_def split: if_splits)
  from Cons.IH[OF s2] k q show ?case by simp
qed

lemma label_id_subquery_Inr_le1:
  "label_id_subquery ls l = Inr t \<Longrightarrow> length (filter (\<lambda>r. l_name r = l) ls) \<le> 1"
  by (auto simp: label_id_subquery_def split: list.splits)

lemma insert_targets_Inr_unambiguous:
  "insert_targets F db packID ls = Inr db' \<Longrightarrow>
   \<forall>l \<in> set ls. length (filter (\<lambda>r. l_name r = l) (labels db)) \<le> 1"
proof (induction ls arbitrary: db)
  case Nil
  then show ?case by simp
next
  case (Cons l ls)
  from Cons.prems obtain db1 where
    s1: "exec_insert_target F db packID TargetLabel l = Inr db1" and
    s2: "insert_targets F db1 packID ls = Inr db'"
    by (auto split: sum.splits if_splits)
  from s1 obtain t where t: "label_id_subquery (labels db) l = Inr t" and q: "labels db1 = labels db"
    by (auto simp: exec_insert_target_def split: if_splits sum.splits)
  from Cons.IH[OF s2] label_id_subquery_Inr_le1[OF t] q show ?case by simp
qed

lemma applyPackSpec_Inr_ok:
  assumes "applyPackSpec F db s = Inr db'"
  shows "spec_ok db s"
proof -
  from assms obtain tx1 where
    u: "exec_upsert_pack F db (ps_Name s) (ps_Description s) (ps_Platform s) = Inr tx1"
    by (auto simp: applyPackSpec_def split: sum.splits)
  from assms u obtain packID where g: "get_pack_id F tx1 (ps_Name s) = Inr packID"
    by (auto simp: applyPackSpec_def split: sum.splits)
  from assms u g obtain tx2 where d: "exec_delete_scheduled_queries F tx1 packID = Inr tx2"
    by (auto simp: applyPackSpec_def split: sum.splits)
  from assms u g d obtain tx3 where i: "insert_scheduled_queries F tx2 packID (ps_Queries s) = Inr tx3"
    by (auto simp: applyPackSpec_def split: sum.splits)
  from assms u g d i obtain tx4 where dt: "exec_delete_targets F tx3 packID = Inr tx4"
    by (auto simp: applyPackSpec_def split: sum.splits)
  from assms u g d i dt have it: "insert_targets F tx4 packID (Labels (ps_Targets s)) = Inr db'"
    by (simp add: applyPackSpec_def)
  from u have 1: "queries tx1 = queries db" "labels tx1 = labels db"
    by (auto simp: exec_upsert_pack_def split: if_splits)
  from d have 2: "queries tx2 = queries tx1" "labels tx2 = labels tx1"
    by (auto simp: exec_delete_scheduled_queries_def split: if_splits)
  from insert_scheduled_queries_Inr[OF i] have 3: "labels tx3 = labels tx2" by simp
  from dt have 4: "labels tx4 = labels tx3"
    by (auto simp: exec_delete_targets_def split: if_splits)
  from insert_scheduled_queries_Inr_known[OF i] insert_targets_Inr_unambiguous[OF it]
  show ?thesis by (simp add: spec_ok_def 1 2 3 4)
qed

lemma apply_specs_Inr_ok:
  "apply_specs F db specs = Inr tx \<Longrightarrow> \<forall>s \<in> set specs. spec_ok db s"
proof (induction specs arbitrary: db)
  case Nil
  then show ?case by simp
next
  case (Cons s specs)
  from Cons.prems obtain tx1 where
    a: "applyPackSpec F db s = Inr tx1" and b: "apply_specs F tx1 specs = Inr tx"
    by (auto split: sum.splits)
  from applyPackSpec_Inr[OF a] have "tx1 = applied db s" .
  with Cons.IH[OF b] have "\<forall>t \<in> set specs. spec_ok db t" by (simp add: spec_ok_applied)
  with applyPackSpec_Inr_ok[OF a] show ?case by simp
qed

lemma spec_ok_foldl: "spec_ok (foldl applied db specs) s = spec_ok db s"
  by (simp add: spec_ok_def foldl_applied_rest foldl_applied_labels)

lemma ApplyPackSpecs_state:
  "snd (ApplyPackSpecs F db specs) = db \<or>
   (fst (ApplyPackSpecs F db specs) = None \<and> snd (ApplyPackSpecs F db specs) = foldl applied db specs)"
  by (auto simp: ApplyPackSpecs_def split: sum.splits dest: apply_specs_Inr)

lemma ApplyPackSpecs_None:
  "ApplyPackSpecs F db specs = (None, db1) \<Longrightarrow> apply_specs F db specs = Inr db1"
  by (auto simp: ApplyPackSpecs_def split: if_splits sum.splits)

lemma apply_again_state:
  assumes a: "ApplyPackSpecs F1 db specs = (None, db1)"
  shows "snd (ApplyPackSpecs F2 db1 specs) = db1"
proof -
  from ApplyPackSpecs_None[OF a] have d1: "db1 = foldl applied db specs"
    by (rule apply_specs_Inr)
  from ApplyPackSpecs_state[of F2 db1 specs]
  have "snd (ApplyPackSpecs F2 db1 specs) = db1 \<or>
        snd (ApplyPackSpecs F2 db1 specs) = foldl applied db1 specs" by blast
  then show ?thesis
  proof
    assume "snd (ApplyPackSpecs F2 db1 specs) = db1"
    then show ?thesis .
  next
    assume "snd (ApplyPackSpecs F2 db1 specs) = foldl applied db1 specs"
    then show ?thesis by (simp add: d1 foldl_applied_idem)
  qed
qed

lemma apply_again_no_faults:
  assumes a: "ApplyPackSpecs F1 db specs = (None, db1)"
  shows "ApplyPackSpecs no_faults db1 specs = (None, db1)"
proof -
  from ApplyPackSpecs_None[OF a] have r: "apply_specs F1 db specs = Inr db1" .
  then have d1: "db1 = foldl applied db specs" by (rule apply_specs_Inr)
  from apply_specs_Inr_ok[OF r] have "\<forall>s \<in> set specs. spec_ok db1 s"
    by (simp add: d1 spec_ok_foldl)
  then have "apply_specs no_faults db1 specs = Inr (foldl applied db1 specs)"
    by (rule apply_specs_no_faults)
  then show ?thesis by (simp add: ApplyPackSpecs_nf d1 foldl_applied_idem)
qed

text \<open>Claim C6, as amended. Let \<open>ApplyPackSpecs\<close> succeed on a batch, under whatever
  pattern \<open>F1\<close> of store failures, and leave the store \<open>db1\<close>. Then a second
  application of the same batch, under whatever pattern \<open>F2\<close> of store failures,
  leaves the store \<open>db1\<close> again, table by table and row by row, so \<open>GetPackSpecs\<close>
  returns the same after the second application as after the first; and without store
  failures the second application returns \<open>nil\<close> too. What \<open>GetPackSpecs\<close> returns
  after the second application relates to the input as in the round trip: when the pack
  and label keys of the first store are unique, the pack names of the batch pairwise
  distinct and its target labels existing, there is for each spec exactly one entry with
  its name, with the spec's description, platform and scheduled queries in order, its
  labels as a multiset and the id of the store, and every other entry is a pack the
  store had before the first application.\<close>

theorem apply_twice_is_apply_once:
  assumes a: "ApplyPackSpecs F1 db specs = (None, db1)"
  shows "snd (ApplyPackSpecs F2 db1 specs) = db1 \<and>
         GetPackSpecs G (snd (ApplyPackSpecs F2 db1 specs)) = GetPackSpecs G db1 \<and>
         ApplyPackSpecs no_faults db1 specs = (None, db1) \<and>
         (pack_keys db \<and> label_keys db \<and> distinct (map ps_Name specs) \<and>
          (\<forall>s \<in> set specs. \<forall>l \<in> set (Labels (ps_Targets s)). l \<in> set (map l_name (labels db)))
          \<longrightarrow>
          (\<exists>rs. GetPackSpecs no_faults (snd (ApplyPackSpecs F2 db1 specs)) = Inr rs \<and>
             (\<forall>s \<in> set specs. \<exists>r.
                 filter (\<lambda>r. ps_Name r = ps_Name s) rs = [r] \<and> same_spec r s \<and>
                 (\<exists>p \<in> set (packs db1). p_name p = ps_Name s \<and> ps_ID r = p_id p) \<and>
                 (\<forall>p0 \<in> set (packs db). p_name p0 = ps_Name s \<longrightarrow> ps_ID r = p_id p0) \<and>
                 (ps_Name s \<notin> p_name ` set (packs db) \<longrightarrow> ps_ID r \<notin> p_id ` set (packs db))) \<and>
             (\<forall>r \<in> set rs. ps_Name r \<notin> ps_Name ` set specs \<longrightarrow>
                 (\<exists>rs0. GetPackSpecs no_faults db = Inr rs0 \<and> r \<in> set rs0))))"
proof (intro conjI impI)
  show s: "snd (ApplyPackSpecs F2 db1 specs) = db1"
    using a by (rule apply_again_state)
  then show "GetPackSpecs G (snd (ApplyPackSpecs F2 db1 specs)) = GetPackSpecs G db1"
    by simp
  show "ApplyPackSpecs no_faults db1 specs = (None, db1)"
    using a by (rule apply_again_no_faults)
  assume h: "pack_keys db \<and> label_keys db \<and> distinct (map ps_Name specs) \<and>
          (\<forall>s \<in> set specs. \<forall>l \<in> set (Labels (ps_Targets s)). l \<in> set (map l_name (labels db)))"
  from ApplyPackSpecs_None[OF a] have d1: "db1 = foldl applied db specs"
    by (rule apply_specs_Inr)
  from h have k: "pack_keys db" and lk: "label_keys db" and d: "distinct (map ps_Name specs)"
    and e: "\<forall>s \<in> set specs. \<forall>l \<in> set (Labels (ps_Targets s)). l \<in> set (map l_name (labels db))"
    by blast+
  note rb = read_back_after_batch[OF k lk d e, folded d1]
  let ?rs = "map (read_spec db1) (packs db1)"
  have g: "GetPackSpecs no_faults (snd (ApplyPackSpecs F2 db1 specs)) = Inr ?rs"
    unfolding s by (rule GetPackSpecs_nf)
  have 2: "\<forall>r \<in> set ?rs. ps_Name r \<notin> ps_Name ` set specs \<longrightarrow>
               (\<exists>rs0. GetPackSpecs no_faults db = Inr rs0 \<and> r \<in> set rs0)"
    using rb[THEN conjunct2] by (simp only: GetPackSpecs_nf) blast
  show "\<exists>rs. GetPackSpecs no_faults (snd (ApplyPackSpecs F2 db1 specs)) = Inr rs \<and>
             (\<forall>s \<in> set specs. \<exists>r.
                 filter (\<lambda>r. ps_Name r = ps_Name s) rs = [r] \<and> same_spec r s \<and>
                 (\<exists>p \<in> set (packs db1). p_name p = ps_Name s \<and> ps_ID r = p_id p) \<and>
                 (\<forall>p0 \<in> set (packs db). p_name p0 = ps_Name s \<longrightarrow> ps_ID r = p_id p0) \<and>
                 (ps_Name s \<notin> p_name ` set (packs db) \<longrightarrow> ps_ID r \<notin> p_id ` set (packs db))) \<and>
             (\<forall>r \<in> set rs. ps_Name r \<notin> ps_Name ` set specs \<longrightarrow>
                 (\<exists>rs0. GetPackSpecs no_faults db = Inr rs0 \<and> r \<in> set rs0))"
    by (rule exI[of _ ?rs], intro conjI) (rule g, rule rb[THEN conjunct1], rule 2)
qed

theorem apply_twice_is_apply_once_witness:
  "\<exists>db1. ApplyPackSpecs no_faults base_store [spec_one, spec_three] = (None, db1) \<and>
         snd (ApplyPackSpecs (\<lambda>st. st = CommitTx) db1 [spec_one, spec_three]) = db1 \<and>
         ApplyPackSpecs no_faults db1 [spec_one, spec_three] = (None, db1) \<and>
         map p_name (packs db1) = [''base'', ''one'', ''three''] \<and>
         (\<exists>rs r. GetPackSpecs no_faults
                    (snd (ApplyPackSpecs (\<lambda>st. st = CommitTx) db1 [spec_one, spec_three])) = Inr rs \<and>
                  filter (\<lambda>r. ps_Name r = ''one'') rs = [r] \<and> same_spec r spec_one \<and>
                  ps_ID r \<noteq> 1)"
proof -
  let ?specs = "[spec_one, spec_three]"
  let ?F2 = "\<lambda>st. st = CommitTx"
  obtain r0 db1 where a0: "ApplyPackSpecs no_faults base_store ?specs = (r0, db1)"
    by (cases "ApplyPackSpecs no_faults base_store ?specs")
  then have r0: "r0 = None" and n: "map p_name (packs db1) = [''base'', ''one'', ''three'']"
    by (auto simp: eval_defs base_store_def example_defs)
  from a0 r0 have a: "ApplyPackSpecs no_faults base_store ?specs = (None, db1)" by simp
  note t = apply_twice_is_apply_once[OF a, where ?F2.0 = ?F2 and G = no_faults]
  have h: "pack_keys base_store \<and> label_keys base_store \<and> distinct (map ps_Name ?specs) \<and>
          (\<forall>s \<in> set ?specs. \<forall>l \<in> set (Labels (ps_Targets s)).
              l \<in> set (map l_name (labels base_store)))"
    by (simp add: pack_keys_def label_keys_def base_store_def example_defs)
  from t h obtain rs where
    rs: "GetPackSpecs no_faults (snd (ApplyPackSpecs ?F2 db1 ?specs)) = Inr rs"
        "\<forall>s \<in> set ?specs. \<exists>r.
                 filter (\<lambda>r. ps_Name r = ps_Name s) rs = [r] \<and> same_spec r s \<and>
                 (\<exists>p \<in> set (packs db1). p_name p = ps_Name s \<and> ps_ID r = p_id p) \<and>
                 (\<forall>p0 \<in> set (packs base_store). p_name p0 = ps_Name s \<longrightarrow> ps_ID r = p_id p0) \<and>
                 (ps_Name s \<notin> p_name ` set (packs base_store)
                    \<longrightarrow> ps_ID r \<notin> p_id ` set (packs base_store))"
    by blast
  from rs(2) obtain r where
    r: "filter (\<lambda>r. ps_Name r = ps_Name spec_one) rs = [r]" "same_spec r spec_one"
       "ps_Name spec_one \<notin> p_name ` set (packs base_store)
          \<longrightarrow> ps_ID r \<notin> p_id ` set (packs base_store)"
    by auto
  have nm: "ps_Name spec_one = ''one''" by (simp add: spec_one_def)
  from r(3) have i: "ps_ID r \<noteq> 1" by (simp add: nm base_store_def fresh_store_def)
  from t have s2: "snd (ApplyPackSpecs ?F2 db1 ?specs) = db1"
    and s3: "ApplyPackSpecs no_faults db1 ?specs = (None, db1)" by blast+
  have "\<exists>rs r. GetPackSpecs no_faults (snd (ApplyPackSpecs ?F2 db1 ?specs)) = Inr rs \<and>
                  filter (\<lambda>r. ps_Name r = ''one'') rs = [r] \<and> same_spec r spec_one \<and>
                  ps_ID r \<noteq> 1"
    using rs(1) r(1,2) i unfolding nm by blast
  with a s2 s3 n show ?thesis by (intro exI[where x = db1] conjI)
qed

text \<open>Claim C6 as stated fails in its last part: after two applications of
  \<open>[spec_one, spec_three]\<close> to \<open>base_store\<close>, both returning \<open>nil\<close>,
  \<open>GetPackSpecs\<close> returns three specs, the pack \<open>base\<close> that was there and the two
  of the batch with the ids 2 and 3 of the store: no reordering of the two submitted.\<close>

theorem apply_twice_read_back_counterexample:
  "fst (ApplyPackSpecs no_faults base_store [spec_one, spec_three]) = None \<and>
   fst (ApplyPackSpecs no_faults (snd (ApplyPackSpecs no_faults base_store [spec_one, spec_three]))
          [spec_one, spec_three]) = None \<and>
   GetPackSpecs no_faults
     (snd (ApplyPackSpecs no_faults (snd (ApplyPackSpecs no_faults base_store [spec_one, spec_three]))
          [spec_one, spec_three]))
     = Inr [\<lparr>ps_ID = 1, ps_Name = ''base'', ps_Description = ''b'', ps_Platform = ''mac'',
             ps_Targets = \<lparr>Labels = []\<rparr>, ps_Queries = []\<rparr>,
            \<lparr>ps_ID = 2, ps_Name = ''one'', ps_Description = ''first'', ps_Platform = ''linux'',
             ps_Targets = \<lparr>Labels = [''linux'', ''mac'']\<rparr>, ps_Queries = [q_uptime, q_info]\<rparr>,
            \<lparr>ps_ID = 3, ps_Name = ''three'', ps_Description = ''third'', ps_Platform = [],
             ps_Targets = \<lparr>Labels = []\<rparr>, ps_Queries = [q_info]\<rparr>] \<and>
   mset [\<lparr>ps_ID = 1, ps_Name = ''base'', ps_Description = ''b'', ps_Platform = ''mac'',
             ps_Targets = \<lparr>Labels = []\<rparr>, ps_Queries = []\<rparr>,
            \<lparr>ps_ID = 2, ps_Name = ''one'', ps_Description = ''first'', ps_Platform = ''linux'',
             ps_Targets = \<lparr>Labels = [''linux'', ''mac'']\<rparr>, ps_Queries = [q_uptime, q_info]\<rparr>,
            \<lparr>ps_ID = 3, ps_Name = ''three'', ps_Description = ''third'', ps_Platform = [],
             ps_Targets = \<lparr>Labels = []\<rparr>, ps_Queries = [q_info]\<rparr>]
     \<noteq> mset [spec_one, spec_three]"
proof -
  let ?specs = "[spec_one, spec_three]"
  let ?d1 = "snd (ApplyPackSpecs no_faults base_store ?specs)"
  have a: "fst (ApplyPackSpecs no_faults base_store ?specs) = None"
    by (simp add: eval_defs base_store_def example_defs)
  have g: "GetPackSpecs no_faults ?d1
     = Inr [\<lparr>ps_ID = 1, ps_Name = ''base'', ps_Description = ''b'', ps_Platform = ''mac'',
             ps_Targets = \<lparr>Labels = []\<rparr>, ps_Queries = []\<rparr>,
            \<lparr>ps_ID = 2, ps_Name = ''one'', ps_Description = ''first'', ps_Platform = ''linux'',
             ps_Targets = \<lparr>Labels = [''linux'', ''mac'']\<rparr>, ps_Queries = [q_uptime, q_info]\<rparr>,
            \<lparr>ps_ID = 3, ps_Name = ''three'', ps_Description = ''third'', ps_Platform = [],
             ps_Targets = \<lparr>Labels = []\<rparr>, ps_Queries = [q_info]\<rparr>]"
    by (simp add: eval_defs base_store_def example_defs)
  from a have "ApplyPackSpecs no_faults base_store ?specs = (None, ?d1)"
    by (simp add: prod_eq_iff)
  then have b: "ApplyPackSpecs no_faults ?d1 ?specs = (None, ?d1)"
    by (rule apply_again_no_faults)
  have m: "mset [x1, x2, x3] \<noteq> mset [y1, y2]" for x1 x2 x3 y1 y2 :: PackSpec
  proof
    assume "mset [x1, x2, x3] = mset [y1, y2]"
    then have "size (mset [x1, x2, x3]) = size (mset [y1, y2])" by (rule arg_cong)
    then show False by simp
  qed
  show ?thesis
    unfolding b fst_conv snd_conv using a g m by simp
qed

end
